theory Spec2Isabelle
  imports Complex_Main
begin

section \<open>Failures and checked vector access\<close>

text \<open>
  The C++ sources signal errors by throwing \<open>EssentiaException\<close>; subscripting a
  \<open>std::vector\<close> outside its bounds is undefined behaviour. Both are values of the
  model: a function that can fail returns \<open>failure + 'a\<close>, with \<open>Inl\<close> the failure.
  \<open>IndexOutOfRange\<close> is the undefined behaviour of an out-of-range subscript;
  \<open>NotFound\<close> is the exception of \<open>Pool::value\<close> and \<open>Unsupported\<close> the exception of the
  unspecialised \<open>Pool::append\<close>; the other three are the failures the specification
  names for \<open>add\<close> and for key validation. Each carries the descriptor name.
\<close>

datatype failure =
    IndexOutOfRange
  | NotFound string
  | Unsupported
  | TypeConflict string
  | NamespaceConflict string
  | InvalidValue string

definition andThen :: "failure + 'a \<Rightarrow> ('a \<Rightarrow> failure + 'b) \<Rightarrow> failure + 'b" where
  "andThen r k = (case r of Inl e \<Rightarrow> Inl e | Inr x \<Rightarrow> k x)"

definition vec_at :: "'a list \<Rightarrow> nat \<Rightarrow> failure + 'a" where
  "vec_at xs i = (if i < length xs then Inr (xs ! i) else Inl IndexOutOfRange)"

definition vec_put :: "'a list \<Rightarrow> nat \<Rightarrow> 'a \<Rightarrow> failure + 'a list" where
  "vec_put xs i v = (if i < length xs then Inr (xs[i := v]) else Inl IndexOutOfRange)"

section \<open>The batch transform: \<open>standard::RhythmTransform::compute\<close>\<close>

text \<open>
  \<open>Real\<close> is a type parameter \<open>'r\<close> with \<open>0\<close>, subtraction and multiplication: no law
  of arithmetic is assumed of it. The sizes \<open>nFrames\<close>, \<open>nBands\<close>, \<open>_rtFrameSize\<close>
  and \<open>_rtHopSize\<close> and all loop counters are natural numbers. The source holds them
  in \<open>int\<close>; the specification gives the two parameters as positive integers (their
  declaration, in \<open>rhythmtransform.h\<close>, is not among the sources), and every counter is
  bounded by a vector's size plus a parameter, which is taken to fit an \<open>int\<close>.
  The windowing and spectrum algorithms \<open>_w\<close> and \<open>_spec\<close> are parameters \<open>w\<close> and
  \<open>spec\<close> of the model, functions from a frame to a frame.
\<close>

subsection \<open>Derive and transpose (lines 49 to 57)\<close>

text \<open>The inner loop \<open>for (frame = 1; frame < nFrames; frame++)\<close> over its counter values.\<close>

fun derivTemp_loop ::
  "('r::minus) list list \<Rightarrow> nat \<Rightarrow> nat list \<Rightarrow> 'r list \<Rightarrow> failure + 'r list" where
  "derivTemp_loop bands band [] derivTemp = Inr derivTemp"
| "derivTemp_loop bands band (frame # frames) derivTemp =
     andThen (vec_at bands frame) (\<lambda>cur.
     andThen (vec_at cur band) (\<lambda>a.
     andThen (vec_at bands (frame - 1)) (\<lambda>prev.
     andThen (vec_at prev band) (\<lambda>b.
     andThen (vec_put derivTemp frame (a - b)) (\<lambda>derivTemp'.
     derivTemp_loop bands band frames derivTemp')))))"

text \<open>The outer loop \<open>for (band = 0; band < nBands; ++band)\<close>.\<close>

fun derive_loop ::
  "('r::{zero,minus}) list list \<Rightarrow> nat \<Rightarrow> nat list \<Rightarrow> 'r list list \<Rightarrow> failure + 'r list list" where
  "derive_loop bands nFrames [] bandsDerivative = Inr bandsDerivative"
| "derive_loop bands nFrames (band # rest) bandsDerivative =
     andThen (vec_put (replicate nFrames 0) 0 0) (\<lambda>derivTemp0.
     andThen (derivTemp_loop bands band [1..<nFrames] derivTemp0) (\<lambda>derivTemp.
     andThen (vec_put bandsDerivative band derivTemp) (\<lambda>bandsDerivative'.
     derive_loop bands nFrames rest bandsDerivative')))"

definition bandsDerivative ::
  "('r::{zero,minus}) list list \<Rightarrow> nat \<Rightarrow> nat \<Rightarrow> failure + 'r list list" where
  "bandsDerivative bands nFrames nBands =
     derive_loop bands nFrames [0..<nBands] (replicate nBands [])"

subsection \<open>Reframing, windowing, spectrum (lines 59 to 92)\<close>

text \<open>The loop \<open>for (j = 0; j < _rtFrameSize; ++j)\<close> that fills \<open>rhythmFrame\<close>.\<close>

fun rhythmFrame_loop ::
  "('r::zero) list list \<Rightarrow> nat \<Rightarrow> nat \<Rightarrow> nat \<Rightarrow> nat list \<Rightarrow> 'r list \<Rightarrow> failure + 'r list" where
  "rhythmFrame_loop bd band i nFrames [] rhythmFrame = Inr rhythmFrame"
| "rhythmFrame_loop bd band i nFrames (j # js) rhythmFrame =
     (if i + j < nFrames
      then andThen (vec_at bd band) (\<lambda>row.
           andThen (vec_at row (i + j)) (\<lambda>v.
           andThen (vec_put rhythmFrame j v) (\<lambda>rhythmFrame'.
           rhythmFrame_loop bd band i nFrames js rhythmFrame')))
      else andThen (vec_put rhythmFrame j 0) (\<lambda>rhythmFrame'.
           rhythmFrame_loop bd band i nFrames js rhythmFrame'))"

text \<open>The loop \<open>for (bin = 0; bin < (int)rhythmSpectrum.size(); ++bin)\<close>.\<close>

fun square_loop :: "('r::times) list \<Rightarrow> nat list \<Rightarrow> 'r list \<Rightarrow> failure + 'r list" where
  "square_loop rhythmSpectrum [] bandSpectrum = Inr bandSpectrum"
| "square_loop rhythmSpectrum (bin # bins) bandSpectrum =
     andThen (vec_at rhythmSpectrum bin) (\<lambda>x.
     andThen (vec_put bandSpectrum bin (x * x)) (\<lambda>bandSpectrum'.
     square_loop rhythmSpectrum bins bandSpectrum'))"

text \<open>
  The loop \<open>for (band = 0; band < nBands; band++)\<close> inside one window. Its state is
  \<open>bandSpectrum\<close> together with the frames handed to the windowing algorithm so far
  (\<open>_w->input("frame").set(rhythmFrame); _w->compute()\<close>), in call order.
\<close>

fun band_loop ::
  "('r list \<Rightarrow> 'r list) \<Rightarrow> ('r list \<Rightarrow> 'r list) \<Rightarrow> nat \<Rightarrow> nat \<Rightarrow> ('r::{zero,times}) list list \<Rightarrow> nat \<Rightarrow>
   nat list \<Rightarrow> 'r list \<times> 'r list list \<Rightarrow> failure + ('r list \<times> 'r list list)" where
  "band_loop w spec rtFrameSize nFrames bd i [] st = Inr st"
| "band_loop w spec rtFrameSize nFrames bd i (band # rest) st =
     andThen (rhythmFrame_loop bd band i nFrames [0..<rtFrameSize] (replicate rtFrameSize 0))
       (\<lambda>rhythmFrame.
         let windowedFrame = w rhythmFrame;
             rhythmSpectrum = spec windowedFrame
         in andThen (square_loop rhythmSpectrum [0..<length rhythmSpectrum] (fst st))
              (\<lambda>bandSpectrum.
                band_loop w spec rtFrameSize nFrames bd i rest
                  (bandSpectrum, snd st @ [rhythmFrame])))"

text \<open>
  The loop \<open>while (i < nFrames)\<close>. Its state is \<open>output\<close> and the frames handed to the
  windowing algorithm. With \<open>_rtHopSize = 0\<close> the source never leaves the loop: the
  model then has no result (\<open>None\<close>).
\<close>

partial_function (option) window_loop ::
  "('r list \<Rightarrow> 'r list) \<Rightarrow> ('r list \<Rightarrow> 'r list) \<Rightarrow> nat \<Rightarrow> nat \<Rightarrow> nat \<Rightarrow> nat \<Rightarrow> ('r::{zero,times}) list list \<Rightarrow>
   nat \<Rightarrow> 'r list list \<times> 'r list list \<Rightarrow> (failure + ('r list list \<times> 'r list list)) option" where
  "window_loop w spec rtFrameSize rtHopSize nFrames nBands bd i st =
     (if i < nFrames
      then (case band_loop w spec rtFrameSize nFrames bd i [0..<nBands]
                   (replicate (rtFrameSize div 2 + 1) 0, snd st) of
              Inl e \<Rightarrow> Some (Inl e)
            | Inr r \<Rightarrow>
                window_loop w spec rtFrameSize rtHopSize nFrames nBands bd (i + rtHopSize)
                  (fst st @ [fst r], snd r))
      else Some (Inr st))"

text \<open>
  \<open>compute\<close>: \<open>bands\<close> is the input \<open>melBands\<close>, \<open>output\<close> the vector bound to the output
  \<open>rhythm\<close> as it is before the call (\<open>push_back\<close> appends to it). The result is the
  output vector after the call, paired with the frames handed to the windowing algorithm.
\<close>

definition compute ::
  "('r list \<Rightarrow> 'r list) \<Rightarrow> ('r list \<Rightarrow> 'r list) \<Rightarrow> nat \<Rightarrow> nat \<Rightarrow> ('r::{zero,minus,times}) list list \<Rightarrow>
   'r list list \<Rightarrow> (failure + ('r list list \<times> 'r list list)) option" where
  "compute w spec rtFrameSize rtHopSize bands output =
     (let nFrames = length bands in
      case vec_at bands 0 of
        Inl e \<Rightarrow> Some (Inl e)
      | Inr first \<Rightarrow>
          (let nBands = length first in
           case bandsDerivative bands nFrames nBands of
             Inl e \<Rightarrow> Some (Inl e)
           | Inr bd \<Rightarrow>
               window_loop w spec rtFrameSize rtHopSize nFrames nBands bd 0 (output, [])))"

section \<open>The descriptor store: \<open>Pool\<close> of \<open>pool.h\<close>\<close>

text \<open>
  \<open>PoolOf(type)\<close> is \<open>std::map<std::string, std::vector<type> >\<close>. The nine members
  of \<open>Pool\<close> are the fields of a record, in the order of their declaration.
  \<open>TNT::Array2D<Real>\<close> is a list of rows, \<open>StereoSample\<close> a pair. The model is of
  one thread: the \<open>MutexLocker\<close> objects, which change no data, are left out.
\<close>

type_synonym 'v PoolOf = "string \<rightharpoonup> 'v list"

record 'r Pool =
  poolSingleReal :: "string \<rightharpoonup> 'r"
  poolSingleString :: "string \<rightharpoonup> string"
  poolSingleVectorReal :: "string \<rightharpoonup> 'r list"
  poolReal :: "'r PoolOf"
  poolVectorReal :: "'r list PoolOf"
  poolString :: "string PoolOf"
  poolVectorString :: "string list PoolOf"
  poolArray2DReal :: "'r list list PoolOf"
  poolStereoSample :: "('r \<times> 'r) PoolOf"

text \<open>A \<open>Pool\<close> as its constructor leaves it: every map empty.\<close>

definition emptyPool :: "'r Pool" where
  "emptyPool =
     \<lparr>poolSingleReal = Map.empty, poolSingleString = Map.empty,
      poolSingleVectorReal = Map.empty, poolReal = Map.empty, poolVectorReal = Map.empty,
      poolString = Map.empty, poolVectorString = Map.empty, poolArray2DReal = Map.empty,
      poolStereoSample = Map.empty\<rparr>"

subsection \<open>\<open>Pool::value\<close> and \<open>Pool::contains\<close> (lines 371 to 463)\<close>

text \<open>
  The macro \<open>SPECIALIZE_VALUE(type, tname)\<close>: look \<open>name\<close> up in \<open>_pool##tname\<close>, throw
  when it is not there. \<open>SPECIALIZE_CONTAINS\<close> is the same lookup returning a truth value.
\<close>

definition specialize_value :: "(string \<rightharpoonup> 'v) \<Rightarrow> string \<Rightarrow> failure + 'v" where
  "specialize_value sub name =
     (case sub name of None \<Rightarrow> Inl (NotFound name) | Some result \<Rightarrow> Inr result)"

definition specialize_contains :: "(string \<rightharpoonup> 'v) \<Rightarrow> string \<Rightarrow> bool" where
  "specialize_contains sub name = (case sub name of None \<Rightarrow> False | Some result \<Rightarrow> True)"

text \<open>\<open>Pool::value<std::vector<std::vector<Real> > >\<close>, the instance \<open>process\<close> calls.\<close>

definition value_vector_vector_Real :: "'r Pool \<Rightarrow> string \<Rightarrow> failure + 'r list list" where
  "value_vector_vector_Real p name = specialize_value (poolVectorReal p) name"

text \<open>
  \<open>Pool::value<std::vector<Real> >\<close> and \<open>Pool::contains<std::vector<Real> >\<close> are
  written out in the source, outside the macros: \<open>_poolReal\<close> first, then
  \<open>_poolSingleVectorReal\<close>.
\<close>

definition value_vector_Real :: "'r Pool \<Rightarrow> string \<Rightarrow> failure + 'r list" where
  "value_vector_Real p name =
     (case poolReal p name of
        Some result \<Rightarrow> Inr result
      | None \<Rightarrow>
          (case poolSingleVectorReal p name of
             Some result \<Rightarrow> Inr result
           | None \<Rightarrow> Inl (NotFound name)))"

definition contains_vector_Real :: "'r Pool \<Rightarrow> string \<Rightarrow> bool" where
  "contains_vector_Real p name =
     (case poolReal p name of
        Some result \<Rightarrow> True
      | None \<Rightarrow>
          (case poolSingleVectorReal p name of
             Some result \<Rightarrow> True
           | None \<Rightarrow> False))"

subsection \<open>\<open>Pool::append\<close> (lines 482 to 513)\<close>

text \<open>
  An operation on the store returns the exception it throws, if any, and the store as
  it is afterwards. \<open>IndexOutOfRange\<close> is undefined behaviour: the store that comes with
  it carries no meaning, and the model gives the store as it was before the call. The
  primary template of \<open>append\<close> throws for every element type \<open>'t\<close> that has no
  specialisation.
\<close>

definition append_unspecialized ::
  "string \<Rightarrow> 't list \<Rightarrow> 'r Pool \<Rightarrow> failure option \<times> 'r Pool" where
  "append_unspecialized name values p = (Some Unsupported, p)"

text \<open>
  \<open>v.resize(n)\<close> of \<open>std::vector\<close>: the first \<open>n\<close> elements, filled up to \<open>n\<close> with the
  value-initialised element \<open>dflt\<close>.
\<close>

definition resize :: "'v \<Rightarrow> 'v list \<Rightarrow> nat \<Rightarrow> 'v list" where
  "resize dflt v n = take n v @ replicate (n - length v) dflt"

text \<open>
  Modelled from the spec: \<open>fastcopy(dest, src, n)\<close> (\<open>essentiautil.h\<close>, not among the
  sources) is the copy behind the "optimized bulk variant of add": it writes \<open>src[k]\<close>
  to \<open>dest[k]\<close> for the counters \<open>k\<close> from 0 below \<open>n\<close>. Here \<open>dest\<close> is \<open>&v[vsize]\<close>
  and \<open>src\<close> is \<open>&values[0]\<close>. \<open>aliased\<close> tells that \<open>values\<close> is a reference to the
  very vector stored under the name, as \<open>Pool::value\<close> returns it: the source is then the
  vector that is being written.
\<close>

fun fastcopy :: "bool \<Rightarrow> 'v list \<Rightarrow> nat \<Rightarrow> nat list \<Rightarrow> 'v list \<Rightarrow> failure + 'v list" where
  "fastcopy aliased values vsize [] v = Inr v"
| "fastcopy aliased values vsize (k # ks) v =
     andThen (vec_at (if aliased then v else values) k) (\<lambda>x.
     andThen (vec_put v (vsize + k) x) (\<lambda>v'.
     fastcopy aliased values vsize ks v'))"

text \<open>
  The path of \<open>SPECIALIZE_APPEND\<close> on which \<open>name\<close> is found (lines 495 to 498), on the
  vector \<open>v\<close> found. \<open>values.size()\<close> is read before \<open>resize\<close> and once more after it,
  for the third argument of \<open>fastcopy\<close>: for an aliased \<open>values\<close> the second reading is
  the size of the resized vector, and the argument \<open>values\<close> of the model is not
  read. The two subscripts \<open>v[vsize]\<close> and \<open>values[0]\<close> are checked like every
  subscript of the model.
\<close>

definition append_found :: "'v \<Rightarrow> bool \<Rightarrow> 'v list \<Rightarrow> 'v list \<Rightarrow> failure + 'v list" where
  "append_found dflt aliased values v =
     (let vsize = length v;
          v1 = resize dflt v (vsize + length (if aliased then v else values));
          n = length (if aliased then v1 else values)
      in andThen (vec_at v1 vsize) (\<lambda>dest.
         andThen (vec_at (if aliased then v1 else values) 0) (\<lambda>src.
         fastcopy aliased values vsize [0..<n] v1)))"

text \<open>
  The macro \<open>SPECIALIZE_APPEND(type, tname)\<close>. \<open>sub\<close> and \<open>sub_update\<close> read and
  update the member \<open>_pool##tname\<close>. \<open>validateKey\<close> is defined in \<open>pool.cpp\<close>, which
  is not among the sources: it is a parameter here, a function from the store and the
  name to the exception it throws, if any.
\<close>

definition specialize_append ::
  "('r Pool \<Rightarrow> 'v PoolOf) \<Rightarrow> (('v PoolOf \<Rightarrow> 'v PoolOf) \<Rightarrow> 'r Pool \<Rightarrow> 'r Pool) \<Rightarrow> 'v \<Rightarrow>
   ('r Pool \<Rightarrow> string \<Rightarrow> failure option) \<Rightarrow> string \<Rightarrow> 'v list \<Rightarrow> bool \<Rightarrow> 'r Pool \<Rightarrow>
   failure option \<times> 'r Pool" where
  "specialize_append sub sub_update dflt validateKey name values aliased p =
     (case sub p name of
        Some v \<Rightarrow>
          (case append_found dflt aliased values v of
             Inl e \<Rightarrow> (Some e, p)
           | Inr v' \<Rightarrow> (None, sub_update (\<lambda>m. m(name \<mapsto> v')) p))
      | None \<Rightarrow>
          (case validateKey p name of
             Some e \<Rightarrow> (Some e, p)
           | None \<Rightarrow> (None, sub_update (\<lambda>m. m(name \<mapsto> values)) p)))"

definition append_Real ::
  "(('r::zero) Pool \<Rightarrow> string \<Rightarrow> failure option) \<Rightarrow> string \<Rightarrow> 'r list \<Rightarrow> bool \<Rightarrow> 'r Pool \<Rightarrow>
   failure option \<times> 'r Pool" where
  "append_Real = specialize_append poolReal poolReal_update 0"

definition append_VectorReal ::
  "('r Pool \<Rightarrow> string \<Rightarrow> failure option) \<Rightarrow> string \<Rightarrow> 'r list list \<Rightarrow> bool \<Rightarrow> 'r Pool \<Rightarrow>
   failure option \<times> 'r Pool" where
  "append_VectorReal = specialize_append poolVectorReal poolVectorReal_update []"

definition append_String ::
  "('r Pool \<Rightarrow> string \<Rightarrow> failure option) \<Rightarrow> string \<Rightarrow> string list \<Rightarrow> bool \<Rightarrow> 'r Pool \<Rightarrow>
   failure option \<times> 'r Pool" where
  "append_String = specialize_append poolString poolString_update []"

definition append_VectorString ::
  "('r Pool \<Rightarrow> string \<Rightarrow> failure option) \<Rightarrow> string \<Rightarrow> string list list \<Rightarrow> bool \<Rightarrow> 'r Pool \<Rightarrow>
   failure option \<times> 'r Pool" where
  "append_VectorString = specialize_append poolVectorString poolVectorString_update []"

definition append_StereoSample ::
  "(('r::zero) Pool \<Rightarrow> string \<Rightarrow> failure option) \<Rightarrow> string \<Rightarrow> ('r \<times> 'r) list \<Rightarrow> bool \<Rightarrow> 'r Pool \<Rightarrow>
   failure option \<times> 'r Pool" where
  "append_StereoSample = specialize_append poolStereoSample poolStereoSample_update (0, 0)"

text \<open>
  \<open>TNT::Array2D<Real>\<close> has no specialisation: \<open>append\<close> at that type is the primary
  template.
\<close>

definition append_Array2DReal ::
  "string \<Rightarrow> 'r list list list \<Rightarrow> 'r Pool \<Rightarrow> failure option \<times> 'r Pool" where
  "append_Array2DReal = append_unspecialized"

subsection \<open>Operations of \<open>pool.cpp\<close>, which is not among the sources\<close>

text \<open>
  Modelled from the spec: \<open>descriptorNames()\<close> "returns all keys across every
  sub-container"; here as a set, the order being unspecified.
\<close>

definition descriptorNames :: "'r Pool \<Rightarrow> string set" where
  "descriptorNames p =
     dom (poolSingleReal p) \<union> dom (poolSingleString p) \<union> dom (poolSingleVectorReal p) \<union>
     dom (poolReal p) \<union> dom (poolVectorReal p) \<union> dom (poolString p) \<union>
     dom (poolVectorString p) \<union> dom (poolArray2DReal p) \<union> dom (poolStereoSample p)"

text \<open>
  Modelled from the spec: a name "exists under a different kind/mode" than K when it is
  in one of the eight sub-containers other than that of K. One definition for each of
  the five kinds that \<open>append\<close> is specialised for.
\<close>

definition others_Real :: "'r Pool \<Rightarrow> string set" where
  "others_Real p =
     dom (poolSingleReal p) \<union> dom (poolSingleString p) \<union> dom (poolSingleVectorReal p) \<union>
     dom (poolVectorReal p) \<union> dom (poolString p) \<union>
     dom (poolVectorString p) \<union> dom (poolArray2DReal p) \<union> dom (poolStereoSample p)"

definition others_VectorReal :: "'r Pool \<Rightarrow> string set" where
  "others_VectorReal p =
     dom (poolSingleReal p) \<union> dom (poolSingleString p) \<union> dom (poolSingleVectorReal p) \<union>
     dom (poolReal p) \<union> dom (poolString p) \<union>
     dom (poolVectorString p) \<union> dom (poolArray2DReal p) \<union> dom (poolStereoSample p)"

definition others_String :: "'r Pool \<Rightarrow> string set" where
  "others_String p =
     dom (poolSingleReal p) \<union> dom (poolSingleString p) \<union> dom (poolSingleVectorReal p) \<union>
     dom (poolReal p) \<union> dom (poolVectorReal p) \<union>
     dom (poolVectorString p) \<union> dom (poolArray2DReal p) \<union> dom (poolStereoSample p)"

definition others_VectorString :: "'r Pool \<Rightarrow> string set" where
  "others_VectorString p =
     dom (poolSingleReal p) \<union> dom (poolSingleString p) \<union> dom (poolSingleVectorReal p) \<union>
     dom (poolReal p) \<union> dom (poolVectorReal p) \<union> dom (poolString p) \<union>
     dom (poolArray2DReal p) \<union> dom (poolStereoSample p)"

definition others_StereoSample :: "'r Pool \<Rightarrow> string set" where
  "others_StereoSample p =
     dom (poolSingleReal p) \<union> dom (poolSingleString p) \<union> dom (poolSingleVectorReal p) \<union>
     dom (poolReal p) \<union> dom (poolVectorReal p) \<union> dom (poolString p) \<union>
     dom (poolVectorString p) \<union> dom (poolArray2DReal p)"

text \<open>
  Modelled from the spec: a descriptor name is period-delimited and "segments before
  the last period form a namespace"; \<open>a\<close> is a strict namespace prefix of \<open>b\<close> when \<open>b\<close>
  starts with \<open>a\<close> followed by a period. Invariant I2 and property P4 forbid a name that
  is a namespace prefix of an existing name, and one that has an existing name as a
  namespace prefix.
\<close>

definition namespacePrefix :: "string \<Rightarrow> string \<Rightarrow> bool" where
  "namespacePrefix a b = (take (length a + 1) b = a @ ''.'')"

definition namespaceConflict :: "string set \<Rightarrow> string \<Rightarrow> bool" where
  "namespaceConflict names name =
     (\<exists>n\<in>names. namespacePrefix name n \<or> namespacePrefix n name)"

text \<open>
  Modelled from the spec: \<open>validateKey\<close>, the "helper function for key validation when
  adding/setting/merging values" (its declaration in \<open>pool.h\<close>), rejects a name that
  exists already (TypeConflict) or that breaks namespace exclusivity (NamespaceConflict).
  \<open>append\<close> calls it only for a name that is absent from the sub-container it writes.
\<close>

definition validateKey :: "'r Pool \<Rightarrow> string \<Rightarrow> failure option" where
  "validateKey p name =
     (if name \<in> descriptorNames p then Some (TypeConflict name)
      else if namespaceConflict (descriptorNames p) name then Some (NamespaceConflict name)
      else None)"

text \<open>
  Modelled from the spec: \<open>add(name, value, validityCheck)\<close> "fails with TypeConflict if
  name exists under a different kind/mode, NamespaceConflict if name is currently a
  namespace prefix of other names (I2), or InvalidValue if validityCheck is set and value
  contains a non-finite number. On success, appends value to the accumulating sequence
  for name under kind K (creating it if absent)". \<open>sub\<close> and \<open>sub_update\<close> select the
  sub-container of kind K and \<open>others\<close> gives the names of the eight other
  sub-containers; \<open>nonfinite\<close> tells whether a value contains a NaN or an infinity.
\<close>

definition add ::
  "('r Pool \<Rightarrow> 'v PoolOf) \<Rightarrow> (('v PoolOf \<Rightarrow> 'v PoolOf) \<Rightarrow> 'r Pool \<Rightarrow> 'r Pool) \<Rightarrow>
   ('r Pool \<Rightarrow> string set) \<Rightarrow> ('v \<Rightarrow> bool) \<Rightarrow>
   string \<Rightarrow> 'v \<Rightarrow> bool \<Rightarrow> 'r Pool \<Rightarrow> failure option \<times> 'r Pool" where
  "add sub sub_update others nonfinite name v validityCheck p =
     (if name \<in> others p then (Some (TypeConflict name), p)
      else if namespaceConflict (descriptorNames p) name then (Some (NamespaceConflict name), p)
      else if validityCheck \<and> nonfinite v then (Some (InvalidValue name), p)
      else (None,
            sub_update (\<lambda>m. m(name \<mapsto> (case m name of None \<Rightarrow> [] | Some old \<Rightarrow> old) @ [v])) p))"

text \<open>
  Repeated \<open>add\<close>: one call for each element of \<open>values\<close>, in order, with the default
  \<open>validityCheck = false\<close>; the first exception ends the sequence of calls.
\<close>

fun repeated_add ::
  "('r Pool \<Rightarrow> 'v PoolOf) \<Rightarrow> (('v PoolOf \<Rightarrow> 'v PoolOf) \<Rightarrow> 'r Pool \<Rightarrow> 'r Pool) \<Rightarrow>
   ('r Pool \<Rightarrow> string set) \<Rightarrow> ('v \<Rightarrow> bool) \<Rightarrow>
   string \<Rightarrow> 'v list \<Rightarrow> 'r Pool \<Rightarrow> failure option \<times> 'r Pool" where
  "repeated_add sub sub_update others nonfinite name [] p = (None, p)"
| "repeated_add sub sub_update others nonfinite name (v # vs) p =
     (case add sub sub_update others nonfinite name v False p of
        (Some e, p') \<Rightarrow> (Some e, p')
      | (None, p') \<Rightarrow> repeated_add sub sub_update others nonfinite name vs p')"

text \<open>Modelled from the spec: \<open>clear()\<close> "empties every sub-container".\<close>

definition clear :: "'r Pool \<Rightarrow> 'r Pool" where
  "clear p = emptyPool"

text \<open>
  What the proofs use of a sub-container: \<open>sub\<close> reads the member that \<open>sub_update\<close>
  writes, \<open>sub_update\<close> touches no other member, and the names of a store are those of
  the member together with those of the eight others.
\<close>

definition sub_lens ::
  "('r Pool \<Rightarrow> 'v PoolOf) \<Rightarrow> (('v PoolOf \<Rightarrow> 'v PoolOf) \<Rightarrow> 'r Pool \<Rightarrow> 'r Pool) \<Rightarrow>
   ('r Pool \<Rightarrow> string set) \<Rightarrow> bool" where
  "sub_lens sub sub_update others =
     ((\<forall>f p. sub (sub_update f p) = f (sub p)) \<and>
      (\<forall>f g p. f (sub p) = g (sub p) \<longrightarrow> sub_update f p = sub_update g p) \<and>
      (\<forall>f g p. sub_update g (sub_update f p) = sub_update (\<lambda>m. g (f m)) p) \<and>
      (\<forall>p. sub_update (\<lambda>m. m) p = p) \<and>
      (\<forall>p. descriptorNames p = dom (sub p) \<union> others p) \<and>
      (\<forall>f p. others (sub_update f p) = others p))"

section \<open>The buffering stage: \<open>streaming::RhythmTransform\<close>\<close>

text \<open>
  The state of a stage: its store \<open>_pool\<close>, the flag that \<open>shouldStop()\<close> reads (the
  framework sets it when upstream has signalled completion), and the two parameters that
  \<open>configure\<close> hands to \<open>_rhythmAlgo\<close>. Only the two status values that \<open>process\<close>
  returns are modelled.
\<close>

datatype AlgorithmStatus = OK | PASS

record 'r Stage =
  pool :: "'r Pool"
  shouldStop :: bool
  frameSize :: nat
  hopSize :: nat

text \<open>
  The constructor: an empty store, written by a \<open>PoolStorage\<close> under the name
  \<open>internal.mel_bands\<close>. The stage has not been told to stop.
\<close>

definition mel_bands :: string where
  "mel_bands = ''internal.mel_bands''"

definition newStage :: "nat \<Rightarrow> nat \<Rightarrow> 'r Stage" where
  "newStage rtFrameSize rtHopSize =
     \<lparr>pool = emptyPool, shouldStop = False, frameSize = rtFrameSize, hopSize = rtHopSize\<rparr>"

text \<open>
  Modelled from the spec: the \<open>PoolStorage\<close> (\<open>poolstorage.h\<close>, not among the sources)
  "exposes a single operation: push(value), which performs an accumulating add of value
  under that name". The frames are of kind sequence of real.
\<close>

definition push :: "'r list \<Rightarrow> 'r Stage \<Rightarrow> failure option \<times> 'r Stage" where
  "push frame st =
     (case add poolVectorReal poolVectorReal_update others_VectorReal (\<lambda>v. False)
             mel_bands frame False (pool st) of
        (e, p') \<Rightarrow> (e, st\<lparr>pool := p'\<rparr>))"

fun push_all :: "'r list list \<Rightarrow> 'r Stage \<Rightarrow> failure option \<times> 'r Stage" where
  "push_all [] st = (None, st)"
| "push_all (frame # frames) st =
     (case push frame st of
        (Some e, st') \<Rightarrow> (Some e, st')
      | (None, st') \<Rightarrow> push_all frames st')"

text \<open>The framework signals that no more input will arrive.\<close>

definition signalCompletion :: "'r Stage \<Rightarrow> 'r Stage" where
  "signalCompletion st = st\<lparr>shouldStop := True\<rparr>"

text \<open>
  \<open>process\<close> (lines 129 to 142). The result is the status returned or the exception
  thrown, with the items pushed on the output \<open>rhythm\<close> of the stage during the call;
  \<open>None\<close> when the batch transform does not return. \<open>process\<close> changes neither the
  store nor the configuration.

  \<open>process\<close> hands both \<open>bands\<close> and its local vector \<open>rhythmTransform\<close> to
  \<open>_rhythmAlgo\<close> through \<open>input(...)\<close> (lines 135 and 136) and binds no output of it.
  \<open>compute\<close> appends to the vector of its output port (\<open>_rhythmTransform.get()\<close>, line
  43). So nothing that \<open>compute\<close> does reaches \<open>rhythmTransform\<close>: the item pushed at
  line 139 is that vector as line 133 declared it, empty. The framework is not among the
  sources; two parameters stand for what it decides: \<open>input\<close> tells for a name what the
  call \<open>_rhythmAlgo->input(name)\<close> throws, if anything, and \<open>port\<close> is what the output
  port of \<open>_rhythmAlgo\<close> yields to \<open>compute\<close>, the vector some earlier caller bound to it
  or the exception for a port that nothing is bound to.
\<close>

definition process ::
  "('r list \<Rightarrow> 'r list) \<Rightarrow> ('r list \<Rightarrow> 'r list) \<Rightarrow> (string \<Rightarrow> failure option) \<Rightarrow>
   failure + 'r list list \<Rightarrow> ('r::{zero,minus,times}) Stage \<Rightarrow>
   ((failure + AlgorithmStatus) \<times> 'r list list list) option" where
  "process w spec input port st =
     (if \<not> shouldStop st then Some (Inr PASS, [])
      else
        (case value_vector_vector_Real (pool st) mel_bands of
           Inl e \<Rightarrow> Some (Inl e, [])
         | Inr bands \<Rightarrow>
             (let rhythmTransform = [] in
              case input ''melBands'' of
                Some e \<Rightarrow> Some (Inl e, [])
              | None \<Rightarrow>
                  (case input ''rhythm'' of
                     Some e \<Rightarrow> Some (Inl e, [])
                   | None \<Rightarrow>
                       (case port of
                          Inl e \<Rightarrow> Some (Inl e, [])
                        | Inr bound \<Rightarrow>
                            (case compute w spec (frameSize st) (hopSize st) bands bound of
                               None \<Rightarrow> None
                             | Some (Inl e) \<Rightarrow> Some (Inl e, [])
                             | Some (Inr r) \<Rightarrow> Some (Inr OK, [rhythmTransform])))))))"

text \<open>
  \<open>reset\<close> (lines 144 to 148). Modelled from the spec: \<open>AlgorithmComposite::reset()\<close>
  "returns the stage to Idle", so the stop flag is cleared; \<open>_rhythmAlgo->reset()\<close>
  keeps the configuration; \<open>_pool.clear()\<close> is \<open>clear\<close>.
\<close>

definition reset :: "'r Stage \<Rightarrow> 'r Stage" where
  "reset st = st\<lparr>shouldStop := False, pool := clear (pool st)\<rparr>"

text \<open>
  One push/completion cycle: the frames are pushed in order, completion is signalled,
  \<open>process\<close> is called once. A push that throws ends the cycle with that exception.
\<close>

definition cycle ::
  "('r list \<Rightarrow> 'r list) \<Rightarrow> ('r list \<Rightarrow> 'r list) \<Rightarrow> (string \<Rightarrow> failure option) \<Rightarrow>
   failure + 'r list list \<Rightarrow> 'r list list \<Rightarrow>
   ('r::{zero,minus,times}) Stage \<Rightarrow> ((failure + AlgorithmStatus) \<times> 'r list list list) option" where
  "cycle w spec input port frames st =
     (case push_all frames st of
        (Some e, st') \<Rightarrow> Some (Inl e, [])
      | (None, st') \<Rightarrow> process w spec input port (signalCompletion st'))"

section \<open>Test data\<close>

text \<open>
  The scenario of the specification: 3 bands, 4 frames (rows are frames, columns are
  bands). The two collaborators are stood in for by a window that leaves the frame as it
  is and by the magnitude spectrum of a frame of two samples.
\<close>

definition scenario_frames :: "real list list" where
  "scenario_frames = [[1, 2, 3], [2, 2, 3], [4, 2, 5], [4, 2, 5]]"

definition plain_window :: "real list \<Rightarrow> real list" where
  "plain_window frame = frame"

fun magnitude2 :: "real list \<Rightarrow> real list" where
  "magnitude2 [a, b] = [abs (a + b), abs (a - b)]"
| "magnitude2 frame = []"

text \<open>
  Two stores: in \<open>poolA\<close> the name \<open>lowlevel.bpm\<close> is in both sub-containers that hold
  sequences of reals; in \<open>poolB\<close> the name \<open>a\<close> holds reals and is also the namespace of
  \<open>a.b\<close>.
\<close>

definition poolA :: "real Pool" where
  "poolA = emptyPool\<lparr>poolReal := [''lowlevel.bpm'' \<mapsto> [1, 2]],
                      poolSingleVectorReal := [''lowlevel.bpm'' \<mapsto> [9], ''lowlevel.mfcc'' \<mapsto> [7, 8]]\<rparr>"

definition poolB :: "real Pool" where
  "poolB = emptyPool\<lparr>poolReal := [''a'' \<mapsto> [1]], poolString := [''a.b'' \<mapsto> [''x'']]\<rparr>"

text \<open>
  Two stages whose upstream has ended: \<open>stageA\<close> has buffered the frames of the
  scenario, \<open>stageB\<close> other frames and a descriptor of its own.
\<close>

definition stageA :: "real Stage" where
  "stageA = \<lparr>pool = emptyPool\<lparr>poolVectorReal := [mel_bands \<mapsto> scenario_frames]\<rparr>,
             shouldStop = True, frameSize = 2, hopSize = 2\<rparr>"

definition stageB :: "real Stage" where
  "stageB = \<lparr>pool = emptyPool\<lparr>poolVectorReal := [mel_bands \<mapsto> [[9, 9, 9], [8, 8, 8]]],
                               poolReal := [''lowlevel.bpm'' \<mapsto> [120]]\<rparr>,
             shouldStop = True, frameSize = 2, hopSize = 2\<rparr>"

section \<open>The words of the specification\<close>

text \<open>
  Three definitions that follow the specification, not the source; the theorems compare
  the source with them. \<open>spec_window row i n\<close> is the window of length \<open>n\<close> at start
  offset \<open>i\<close> over the sequence \<open>row\<close>: "any position beyond the last available index
  is zero-filled".
\<close>

definition spec_window :: "('r::zero) list \<Rightarrow> nat \<Rightarrow> nat \<Rightarrow> 'r list" where
  "spec_window row i rtFrameSize =
     map (\<lambda>j. if i + j < length row then row ! (i + j) else 0) [0..<rtFrameSize]"

text \<open>
  The per-window record as the specification describes it: "one sequence of squared
  spectral bins per band".
\<close>

definition spec_band_spectra ::
  "('r list \<Rightarrow> 'r list) \<Rightarrow> ('r list \<Rightarrow> 'r list) \<Rightarrow> nat \<Rightarrow> ('r::{zero,times}) list list \<Rightarrow> nat \<Rightarrow> nat \<Rightarrow> 'r list list" where
  "spec_band_spectra w spec rtFrameSize bd nBands i =
     map (\<lambda>band. map (\<lambda>x. x * x) (spec (w (spec_window (bd ! band) i rtFrameSize)))) [0..<nBands]"

text \<open>
  "The entire input is covered": the derivative index \<open>n\<close> lies inside one of the first
  \<open>m\<close> windows.
\<close>

definition covered :: "nat \<Rightarrow> nat \<Rightarrow> nat \<Rightarrow> nat \<Rightarrow> bool" where
  "covered rtHopSize rtFrameSize m n = (\<exists>k<m. k * rtHopSize \<le> n \<and> n < k * rtHopSize + rtFrameSize)"

section \<open>Checked vector access and the derivative loops\<close>

lemma andThen_Inr [simp]: "andThen (Inr x) k = k x"
  by (simp add: andThen_def)

lemma andThen_Inl [simp]: "andThen (Inl e) k = Inl e"
  by (simp add: andThen_def)

lemma vec_at_in [simp]: "i < length xs \<Longrightarrow> vec_at xs i = Inr (xs ! i)"
  by (simp add: vec_at_def)

lemma vec_at_out [simp]: "\<not> i < length xs \<Longrightarrow> vec_at xs i = Inl IndexOutOfRange"
  by (simp add: vec_at_def)

lemma vec_put_in [simp]: "i < length xs \<Longrightarrow> vec_put xs i v = Inr (xs[i := v])"
  by (simp add: vec_put_def)

lemma vec_put_out [simp]: "\<not> i < length xs \<Longrightarrow> vec_put xs i v = Inl IndexOutOfRange"
  by (simp add: vec_put_def)

lemma derivTemp_loop_result:
  assumes "\<forall>f\<in>set frames. 0 < f \<and> f < length bands \<and> f < length d
             \<and> band < length (bands ! f) \<and> band < length (bands ! (f - 1))"
  shows "\<exists>d'. derivTemp_loop bands band frames d = Inr d' \<and> length d' = length d \<and>
           (\<forall>k < length d. d' ! k = (if k \<in> set frames then bands ! k ! band - bands ! (k - 1) ! band else d ! k))"
  using assms
proof (induction frames arbitrary: d)
  case Nil
  then show ?case by simp
next
  case (Cons f frames)
  let ?d1 = "d[f := bands ! f ! band - bands ! (f - 1) ! band]"
  from Cons.prems have f: "0 < f" "f < length bands" "f < length d"
    "band < length (bands ! f)" "band < length (bands ! (f - 1))" by auto
  have step: "derivTemp_loop bands band (f # frames) d = derivTemp_loop bands band frames ?d1"
    using f by simp
  have "\<forall>g\<in>set frames. 0 < g \<and> g < length bands \<and> g < length ?d1
             \<and> band < length (bands ! g) \<and> band < length (bands ! (g - 1))"
    using Cons.prems by simp
  from Cons.IH[OF this] obtain d' where d': "derivTemp_loop bands band frames ?d1 = Inr d'"
    "length d' = length ?d1"
    "\<forall>k < length ?d1. d' ! k = (if k \<in> set frames then bands ! k ! band - bands ! (k - 1) ! band else ?d1 ! k)"
    by blast
  have "\<forall>k < length d. d' ! k = (if k \<in> set (f # frames) then bands ! k ! band - bands ! (k - 1) ! band else d ! k)"
    using d'(3) f(3) by (auto simp: nth_list_update)
  then show ?case using step d'(1,2) by simp
qed

lemma derive_loop_result:
  assumes "0 < nFrames" "nFrames = length bands"
    and "\<forall>b\<in>set bs. b < length bd \<and> (\<forall>f < nFrames. b < length (bands ! f))"
  shows "\<exists>bd'. derive_loop bands nFrames bs bd = Inr bd' \<and> length bd' = length bd \<and>
           (\<forall>b < length bd. bd' ! b =
              (if b \<in> set bs
               then (0::'a::{zero,minus}) # map (\<lambda>k. bands ! k ! b - bands ! (k - 1) ! b) [1..<nFrames]
               else bd ! b))"
  using assms(3)
proof (induction bs arbitrary: bd)
  case Nil
  then show ?case by simp
next
  case (Cons b bs)
  from Cons.prems have b: "b < length bd" "\<forall>f < nFrames. b < length (bands ! f)" by auto
  let ?d0 = "(replicate nFrames (0::'a))[0 := 0]"
  have "\<forall>f\<in>set [1..<nFrames]. 0 < f \<and> f < length bands \<and> f < length ?d0
             \<and> b < length (bands ! f) \<and> b < length (bands ! (f - 1))"
    using b(2) assms(2) by auto
  from derivTemp_loop_result[OF this] obtain d where d:
    "derivTemp_loop bands b [1..<nFrames] ?d0 = Inr d" "length d = length ?d0"
    "\<forall>k < length ?d0. d ! k = (if k \<in> set [1..<nFrames] then bands ! k ! b - bands ! (k - 1) ! b else ?d0 ! k)"
    by blast
  have deq: "d = 0 # map (\<lambda>k. bands ! k ! b - bands ! (k - 1) ! b) [1..<nFrames]"
  proof (rule nth_equalityI)
    show "length d = length (0 # map (\<lambda>k. bands ! k ! b - bands ! (k - 1) ! b) [1..<nFrames])"
      using d(2) assms(1) by simp
  next
    fix k assume "k < length d"
    then have k: "k < nFrames" using d(2) by simp
    show "d ! k = (0 # map (\<lambda>k. bands ! k ! b - bands ! (k - 1) ! b) [1..<nFrames]) ! k"
    proof (cases k)
      case 0
      then show ?thesis using d(3) k by simp
    next
      case (Suc m)
      then have "[1..<nFrames] ! m = Suc m" using k by simp
      then show ?thesis using d(3) k Suc by simp
    qed
  qed
  have step: "derive_loop bands nFrames (b # bs) bd = derive_loop bands nFrames bs (bd[b := d])"
    using assms(1) d(1) b(1) by simp
  have "\<forall>c\<in>set bs. c < length (bd[b := d]) \<and> (\<forall>f < nFrames. c < length (bands ! f))"
    using Cons.prems by simp
  from Cons.IH[OF this] obtain bd' where bd':
    "derive_loop bands nFrames bs (bd[b := d]) = Inr bd'" "length bd' = length (bd[b := d])"
    "\<forall>c < length (bd[b := d]). bd' ! c =
              (if c \<in> set bs
               then 0 # map (\<lambda>k. bands ! k ! c - bands ! (k - 1) ! c) [1..<nFrames]
               else bd[b := d] ! c)"
    by blast
  have "\<forall>c < length bd. bd' ! c =
              (if c \<in> set (b # bs)
               then 0 # map (\<lambda>k. bands ! k ! c - bands ! (k - 1) ! c) [1..<nFrames]
               else bd ! c)"
    using bd'(3) b(1) deq by (auto simp: nth_list_update)
  then show ?case using step bd'(1,2) by simp
qed

section \<open>The loops of the batch transform\<close>

lemma bandsDerivative_rows:
  fixes bands :: "('r::{zero,minus}) list list"
  assumes "bands \<noteq> []" and "\<forall>frame\<in>set bands. length frame = nBands"
  shows "\<exists>bd. bandsDerivative bands (length bands) nBands = Inr bd \<and> length bd = nBands \<and>
           (\<forall>b<nBands. bd ! b =
              0 # map (\<lambda>k. bands ! k ! b - bands ! (k - 1) ! b) [1..<length bands])"
proof -
  have "\<forall>b\<in>set [0..<nBands]. b < length (replicate nBands ([]::'r list)) \<and>
          (\<forall>f < length bands. b < length (bands ! f))"
    using assms(2) by simp
  from derive_loop_result[OF _ refl this] assms(1) show ?thesis
    by (auto simp: bandsDerivative_def)
qed

lemma rhythmFrame_loop_result:
  assumes "band < length bd" "nFrames \<le> length (bd ! band)" "\<forall>j\<in>set js. j < length rf"
  shows "\<exists>rf'. rhythmFrame_loop bd band i nFrames js rf = Inr rf' \<and> length rf' = length rf \<and>
           (\<forall>k < length rf. rf' ! k =
              (if k \<in> set js then (if i + k < nFrames then bd ! band ! (i + k) else 0) else rf ! k))"
  using assms(3)
proof (induction js arbitrary: rf)
  case Nil
  then show ?case by simp
next
  case (Cons j js)
  let ?v = "if i + j < nFrames then bd ! band ! (i + j) else 0"
  have j: "j < length rf" using Cons.prems by simp
  have step: "rhythmFrame_loop bd band i nFrames (j # js) rf =
              rhythmFrame_loop bd band i nFrames js (rf[j := ?v])"
    using assms(1,2) j by simp
  have "\<forall>j'\<in>set js. j' < length (rf[j := ?v])" using Cons.prems by simp
  from Cons.IH[OF this] obtain rf' where rf':
    "rhythmFrame_loop bd band i nFrames js (rf[j := ?v]) = Inr rf'"
    "length rf' = length (rf[j := ?v])"
    "\<forall>k < length (rf[j := ?v]). rf' ! k =
       (if k \<in> set js then (if i + k < nFrames then bd ! band ! (i + k) else 0) else rf[j := ?v] ! k)"
    by blast
  have "\<forall>k < length rf. rf' ! k =
       (if k \<in> set (j # js) then (if i + k < nFrames then bd ! band ! (i + k) else 0) else rf ! k)"
    using rf'(3) j by (auto simp: nth_list_update)
  then show ?case using step rf'(1,2) by simp
qed

lemma rhythmFrame_loop_window:
  assumes "band < length bd" "length (bd ! band) = nFrames"
  shows "rhythmFrame_loop bd band i nFrames [0..<fs] (replicate fs 0) =
           Inr (spec_window (bd ! band) i fs)"
proof -
  have "\<forall>j\<in>set [0..<fs]. j < length (replicate fs (0::'a))" by simp
  from rhythmFrame_loop_result[OF assms(1) _ this, of nFrames i] assms(2)
  obtain rf' where rf': "rhythmFrame_loop bd band i nFrames [0..<fs] (replicate fs 0) = Inr rf'"
    "length rf' = fs"
    "\<forall>k < fs. rf' ! k = (if i + k < nFrames then bd ! band ! (i + k) else 0)"
    by auto
  have "rf' = spec_window (bd ! band) i fs"
    by (rule nth_equalityI) (simp_all add: rf'(2,3) spec_window_def assms(2))
  then show ?thesis using rf'(1) by simp
qed

lemma square_loop_result:
  assumes "\<forall>b\<in>set bins. b < length rs \<and> b < length bs"
  shows "\<exists>bs'. square_loop rs bins bs = Inr bs' \<and> length bs' = length bs \<and>
           (\<forall>k < length bs. bs' ! k = (if k \<in> set bins then rs ! k * rs ! k else bs ! k))"
  using assms
proof (induction bins arbitrary: bs)
  case Nil
  then show ?case by simp
next
  case (Cons b bins)
  have b: "b < length rs" "b < length bs" using Cons.prems by auto
  have step: "square_loop rs (b # bins) bs = square_loop rs bins (bs[b := rs ! b * rs ! b])"
    using b by simp
  have "\<forall>c\<in>set bins. c < length rs \<and> c < length (bs[b := rs ! b * rs ! b])"
    using Cons.prems by simp
  from Cons.IH[OF this] obtain bs' where bs':
    "square_loop rs bins (bs[b := rs ! b * rs ! b]) = Inr bs'"
    "length bs' = length (bs[b := rs ! b * rs ! b])"
    "\<forall>k < length (bs[b := rs ! b * rs ! b]). bs' ! k =
       (if k \<in> set bins then rs ! k * rs ! k else bs[b := rs ! b * rs ! b] ! k)"
    by blast
  have "\<forall>k < length bs. bs' ! k = (if k \<in> set (b # bins) then rs ! k * rs ! k else bs ! k)"
    using bs'(3) b(2) by (auto simp: nth_list_update)
  then show ?case using step bs'(1,2) by simp
qed

lemma square_loop_all:
  assumes "length rs \<le> length bs"
  shows "\<exists>bs'. square_loop rs [0..<length rs] bs = Inr bs' \<and> length bs' = length bs \<and>
           (\<forall>k < length bs. bs' ! k = (if k < length rs then rs ! k * rs ! k else bs ! k))"
proof -
  have "\<forall>b\<in>set [0..<length rs]. b < length rs \<and> b < length bs" using assms by simp
  from square_loop_result[OF this] show ?thesis by simp
qed

lemma band_loop_result:
  assumes "\<forall>band\<in>set bs. band < length bd \<and> length (bd ! band) = nFrames"
    and "\<forall>x. length x = fs \<longrightarrow> length (spec (w x)) \<le> length (fst st)"
  shows "\<exists>bandSpectrum. band_loop w spec fs nFrames bd i bs st =
            Inr (bandSpectrum, snd st @ map (\<lambda>band. spec_window (bd ! band) i fs) bs) \<and>
          length bandSpectrum = length (fst st)"
  using assms
proof (induction bs arbitrary: st)
  case Nil
  then show ?case by (cases st) simp
next
  case (Cons band bs)
  let ?rf = "spec_window (bd ! band) i fs"
  have band: "band < length bd" "length (bd ! band) = nFrames" using Cons.prems(1) by auto
  have len: "length ?rf = fs" by (simp add: spec_window_def)
  then have "length (spec (w ?rf)) \<le> length (fst st)" using Cons.prems(2) by blast
  from square_loop_all[OF this] obtain b1 where b1:
    "square_loop (spec (w ?rf)) [0..<length (spec (w ?rf))] (fst st) = Inr b1"
    "length b1 = length (fst st)" by blast
  have step: "band_loop w spec fs nFrames bd i (band # bs) st =
              band_loop w spec fs nFrames bd i bs (b1, snd st @ [?rf])"
    using rhythmFrame_loop_window[OF band, of i fs] b1(1) by (simp add: Let_def)
  have p1: "\<forall>band\<in>set bs. band < length bd \<and> length (bd ! band) = nFrames"
    using Cons.prems(1) by simp
  have p2: "\<forall>x. length x = fs \<longrightarrow> length (spec (w x)) \<le> length (fst (b1, snd st @ [?rf]))"
    using Cons.prems(2) b1(2) by simp
  from Cons.IH[OF p1 p2] show ?case using step b1(2) by simp
qed

lemma window_loop_result:
  assumes hop: "0 < hop"
    and bd: "\<forall>band<nBands. band < length bd \<and> length (bd ! band) = nFrames"
    and sp: "\<forall>x. length x = fs \<longrightarrow> length (spec (w x)) \<le> fs div 2 + 1"
    and m: "\<forall>k. k < m \<longleftrightarrow> i + k * hop < nFrames"
  shows "\<exists>out'. window_loop w spec fs hop nFrames nBands bd i (out, calls) =
           Some (Inr (out @ out',
                      calls @ concat (map (\<lambda>k. map (\<lambda>band. spec_window (bd ! band) (i + k * hop) fs)
                                                  [0..<nBands]) [0..<m]))) \<and>
           length out' = m \<and> (\<forall>e\<in>set out'. length e = fs div 2 + 1)"
  using m
proof (induction m arbitrary: i out calls)
  case 0
  then have "\<not> i < nFrames" by (metis less_irrefl mult_0 add_0_right)
  then show ?case by (subst window_loop.simps) simp
next
  case (Suc m)
  have i: "i < nFrames" using Suc.prems[rule_format, of 0] by simp
  let ?fr = "map (\<lambda>band. spec_window (bd ! band) i fs) [0..<nBands]"
  have p1: "\<forall>band\<in>set [0..<nBands]. band < length bd \<and> length (bd ! band) = nFrames"
    using bd by simp
  have p2: "\<forall>x. length x = fs \<longrightarrow>
              length (spec (w x)) \<le> length (fst (replicate (fs div 2 + 1) (0::'a), calls))"
    using sp by simp
  from band_loop_result[where w=w and spec=spec and st="(replicate (fs div 2 + 1) 0, calls)"
      and i=i, OF p1 p2] obtain b1 where b1:
    "band_loop w spec fs nFrames bd i [0..<nBands] (replicate (fs div 2 + 1) 0, calls) =
       Inr (b1, calls @ ?fr)" "length b1 = fs div 2 + 1"
    by auto
  have step: "window_loop w spec fs hop nFrames nBands bd i (out, calls) =
              window_loop w spec fs hop nFrames nBands bd (i + hop) (out @ [b1], calls @ ?fr)"
    using i b1(1) by (subst window_loop.simps) simp
  have "\<forall>k. k < m \<longleftrightarrow> (i + hop) + k * hop < nFrames"
  proof
    fix k
    have "Suc k < Suc m \<longleftrightarrow> i + Suc k * hop < nFrames" using Suc.prems by blast
    then show "k < m \<longleftrightarrow> (i + hop) + k * hop < nFrames" by (simp add: add.assoc)
  qed
  from Suc.IH[OF this, of "out @ [b1]" "calls @ ?fr"] obtain out' where out':
    "window_loop w spec fs hop nFrames nBands bd (i + hop) (out @ [b1], calls @ ?fr) =
       Some (Inr ((out @ [b1]) @ out',
                  (calls @ ?fr) @ concat (map (\<lambda>k. map (\<lambda>band. spec_window (bd ! band) (i + hop + k * hop) fs)
                                                  [0..<nBands]) [0..<m])))"
    "length out' = m" "\<forall>e\<in>set out'. length e = fs div 2 + 1"
    by blast
  have shift: "map (\<lambda>k. map (\<lambda>band. spec_window (bd ! band) (i + k * hop) fs) [0..<nBands]) [0..<Suc m] =
        ?fr # map (\<lambda>k. map (\<lambda>band. spec_window (bd ! band) (i + hop + k * hop) fs) [0..<nBands]) [0..<m]"
    by (simp add: map_upt_Suc add.assoc del: upt_Suc)
  show ?case
    apply (rule exI[of _ "b1 # out'"])
    using step out' b1(2) shift by (simp del: upt_Suc)
qed

lemma window_count:
  assumes "0 < hop" "0 < n"
  shows "k < (n - 1) div hop + 1 \<longleftrightarrow> k * hop < (n::nat)"
proof -
  have "k < (n - 1) div hop + 1 \<longleftrightarrow> k \<le> (n - 1) div hop" by auto
  also have "\<dots> \<longleftrightarrow> k * hop \<le> n - 1" using assms(1) by (simp add: less_eq_div_iff_mult_less_eq)
  also have "\<dots> \<longleftrightarrow> k * hop < n" using assms(2) by auto
  finally show ?thesis .
qed

lemma compute_result:
  fixes bands :: "('r::{zero,minus,times}) list list"
  assumes hop: "0 < hop" and ne: "bands \<noteq> []"
    and rect: "\<forall>frame\<in>set bands. length frame = nBands"
    and sp: "\<forall>x. length x = fs \<longrightarrow> length (spec (w x)) \<le> fs div 2 + 1"
  shows "\<exists>bd out'. bandsDerivative bands (length bands) nBands = Inr bd \<and>
           length bd = nBands \<and> (\<forall>b<nBands. length (bd ! b) = length bands) \<and>
           compute w spec fs hop bands outp =
             Some (Inr (outp @ out',
                        concat (map (\<lambda>k. map (\<lambda>band. spec_window (bd ! band) (k * hop) fs) [0..<nBands])
                                    [0..<(length bands - 1) div hop + 1]))) \<and>
           length out' = (length bands - 1) div hop + 1 \<and>
           (\<forall>e\<in>set out'. length e = fs div 2 + 1)"
proof -
  have n: "0 < length bands" using ne by simp
  from bandsDerivative_rows[OF ne rect] obtain bd where bd:
    "bandsDerivative bands (length bands) nBands = Inr bd" "length bd = nBands"
    "\<forall>b<nBands. bd ! b = 0 # map (\<lambda>k. bands ! k ! b - bands ! (k - 1) ! b) [1..<length bands]"
    by blast
  have len: "\<forall>b<nBands. length (bd ! b) = length bands" using bd(3) n by simp
  have p1: "\<forall>band<nBands. band < length bd \<and> length (bd ! band) = length bands"
    using len bd(2) by simp
  have p2: "\<forall>k. k < (length bands - 1) div hop + 1 \<longleftrightarrow> 0 + k * hop < length bands"
    using window_count[OF hop n] by simp
  from window_loop_result[where w=w and spec=spec and out=outp and calls="[]", OF hop p1 sp p2]
  obtain out' where out':
    "window_loop w spec fs hop (length bands) nBands bd 0 (outp, []) =
       Some (Inr (outp @ out',
                  concat (map (\<lambda>k. map (\<lambda>band. spec_window (bd ! band) (k * hop) fs) [0..<nBands])
                              [0..<(length bands - 1) div hop + 1])))"
    "length out' = (length bands - 1) div hop + 1" "\<forall>e\<in>set out'. length e = fs div 2 + 1"
    by auto
  have nb: "length (bands ! 0) = nBands" using rect ne by (cases bands) auto
  have "compute w spec fs hop bands outp =
          window_loop w spec fs hop (length bands) nBands bd 0 (outp, [])"
    using n nb bd(1) by (simp add: compute_def Let_def)
  then show ?thesis using bd(1,2) len out' by auto
qed

lemma magnitude2_length: "length (magnitude2 frame) \<le> 2"
  by (cases frame rule: magnitude2.cases) simp_all

lemma spec_window_nth:
  "length (spec_window row i n) = n \<and>
   (\<forall>j<n. spec_window row i n ! j = (if i + j < length row then row ! (i + j) else 0))"
  by (simp add: spec_window_def)

section \<open>The claims about the batch transform\<close>

text \<open>
  Claim C3. For an input of at least one frame, each frame holding \<open>nBands\<close> band
  energies, the derivative step returns one sequence per band, of the length of the
  input; its element at index 0 is 0 and its element at every index \<open>i > 0\<close> is
  \<open>bands[i][band] - bands[i-1][band]\<close>, the first difference along the frame axis.
\<close>

theorem derivative_first_difference:
  fixes bands :: "('r::{zero,minus}) list list"
  assumes "bands \<noteq> []" and "\<forall>frame\<in>set bands. length frame = nBands"
  shows "\<exists>bd. bandsDerivative bands (length bands) nBands = Inr bd \<and> length bd = nBands \<and>
           (\<forall>band<nBands. length (bd ! band) = length bands \<and> bd ! band ! 0 = 0 \<and>
              (\<forall>i. 0 < i \<and> i < length bands \<longrightarrow>
                 bd ! band ! i = bands ! i ! band - bands ! (i - 1) ! band))"
proof -
  from bandsDerivative_rows[OF assms] obtain bd where bd:
    "bandsDerivative bands (length bands) nBands = Inr bd" "length bd = nBands"
    "\<forall>b<nBands. bd ! b = 0 # map (\<lambda>k. bands ! k ! b - bands ! (k - 1) ! b) [1..<length bands]"
    by blast
  have "\<forall>band<nBands. length (bd ! band) = length bands \<and> bd ! band ! 0 = 0 \<and>
              (\<forall>i. 0 < i \<and> i < length bands \<longrightarrow>
                 bd ! band ! i = bands ! i ! band - bands ! (i - 1) ! band)"
  proof (intro allI impI conjI)
    fix band assume b: "band < nBands"
    have "0 < length bands" using assms(1) by simp
    then show "length (bd ! band) = length bands" using bd(3) b by simp
    show "bd ! band ! 0 = 0" using bd(3) b by simp
    fix i assume i: "0 < i \<and> i < length bands"
    then obtain m where m: "i = Suc m" by (cases i) auto
    then have "[1..<length bands] ! m = Suc m" using i by simp
    then show "bd ! band ! i = bands ! i ! band - bands ! (i - 1) ! band"
      using bd(3) b m i by simp
  qed
  then show ?thesis using bd(1,2) by auto
qed

text \<open>
  The theorem at the scenario of the specification: band 0 has the derivative
  \<open>[0, 1, 2, 0]\<close>, band 1 \<open>[0, 0, 0, 0]\<close> and band 2 \<open>[0, 0, 2, 0]\<close>.
\<close>

theorem derivative_first_difference_witness:
  "\<exists>bd. bandsDerivative scenario_frames 4 3 = Inr bd \<and> length bd = 3 \<and>
     map (\<lambda>band. map (\<lambda>i. bd ! band ! i) [0, 1, 2, 3]) [0, 1, 2] =
       [[0, 1, 2, 0], [0, 0, 0, 0], [0, 0, 2, 0]]"
proof -
  have ne: "scenario_frames \<noteq> []" by (simp add: scenario_frames_def)
  have rect: "\<forall>frame\<in>set scenario_frames. length frame = 3"
    by (simp add: scenario_frames_def)
  from derivative_first_difference[OF ne rect] obtain bd where bd:
    "bandsDerivative scenario_frames (length scenario_frames) 3 = Inr bd" "length bd = 3"
    "\<forall>band<3. length (bd ! band) = length scenario_frames \<and> bd ! band ! 0 = 0 \<and>
       (\<forall>i. 0 < i \<and> i < length scenario_frames \<longrightarrow>
          bd ! band ! i = scenario_frames ! i ! band - scenario_frames ! (i - 1) ! band)"
    by blast
  have len: "length scenario_frames = 4" by (simp add: scenario_frames_def)
  have rows: "map (\<lambda>band. map (\<lambda>i. bd ! band ! i) [0, 1, 2, 3]) [0, 1, 2] =
          [[0, 1, 2, 0], [0, 0, 0, 0], [0, 0, 2, 0]]"
    using bd(3) by (simp add: scenario_frames_def)
  have "bandsDerivative scenario_frames 4 3 = Inr bd" using bd(1) len by simp
  then show ?thesis using bd(2) rows by - (rule exI[of _ bd], simp)
qed

text \<open>
  Claim C1, as amended. For an input of at least one frame, each frame holding \<open>nBands\<close>
  band energies, a positive hop size and a spectrum algorithm that returns at most
  \<open>frameSize/2 + 1\<close> bins, the batch transform returns; it appends one entry for each
  window position (the positions \<open>k * hopSize\<close> below the frame count), and every entry
  is a single sequence of \<open>frameSize/2 + 1\<close> values: the output holds one spectrum-sized
  sequence for a window, not one for each band.
\<close>

theorem output_entries_single_spectra:
  fixes bands :: "('r::{zero,minus,times}) list list"
  assumes "0 < rtHopSize" and "bands \<noteq> []"
    and "\<forall>frame\<in>set bands. length frame = nBands"
    and "\<forall>x. length x = rtFrameSize \<longrightarrow> length (spec (w x)) \<le> rtFrameSize div 2 + 1"
  shows "\<exists>entries windowed.
           compute w spec rtFrameSize rtHopSize bands outp = Some (Inr (outp @ entries, windowed)) \<and>
           length entries = (length bands - 1) div rtHopSize + 1 \<and>
           (\<forall>k. k < length entries \<longleftrightarrow> k * rtHopSize < length bands) \<and>
           (\<forall>entry\<in>set entries. length entry = rtFrameSize div 2 + 1)"
proof -
  from compute_result[where w=w and spec=spec, OF assms]
  obtain bd out' where r:
    "compute w spec rtFrameSize rtHopSize bands outp =
       Some (Inr (outp @ out',
             concat (map (\<lambda>k. map (\<lambda>band. spec_window (bd ! band) (k * rtHopSize) rtFrameSize) [0..<nBands])
                         [0..<(length bands - 1) div rtHopSize + 1])))"
    "length out' = (length bands - 1) div rtHopSize + 1"
    "\<forall>e\<in>set out'. length e = rtFrameSize div 2 + 1"
    by blast
  have "0 < length bands" using assms(2) by simp
  from window_count[OF assms(1) this] r(2)
  have "\<forall>k. k < length out' \<longleftrightarrow> k * rtHopSize < length bands" by simp
  then show ?thesis using r by blast
qed

text \<open>
  The theorem at the scenario of the specification (3 bands, 4 frames, frame size 2, hop
  size 2): the result has 2 entries, each a sequence of length 2.
\<close>

theorem output_entries_single_spectra_witness:
  "\<exists>entries windowed.
     compute plain_window magnitude2 2 2 scenario_frames [] = Some (Inr (entries, windowed)) \<and>
     length entries = 2 \<and> list_all (\<lambda>entry. length entry = 2) entries"
proof -
  have h1: "scenario_frames \<noteq> []" by (simp add: scenario_frames_def)
  have h2: "\<forall>frame\<in>set scenario_frames. length frame = 3" by (simp add: scenario_frames_def)
  have h3: "\<forall>x. length x = 2 \<longrightarrow> length (magnitude2 (plain_window x)) \<le> 2 div 2 + 1"
    using magnitude2_length[of "plain_window _"] by (simp add: numeral_2_eq_2)
  have len: "length scenario_frames = 4" by (simp add: scenario_frames_def)
  have two: "(2::nat) div 2 + 1 = 2" by simp
  from output_entries_single_spectra[where w=plain_window and spec=magnitude2 and outp="[]",
      OF _ h1 h2 h3, of 2]
  obtain entries windowed where r:
    "compute plain_window magnitude2 2 2 scenario_frames [] = Some (Inr ([] @ entries, windowed))"
    "length entries = (length scenario_frames - 1) div 2 + 1"
    "\<forall>entry\<in>set entries. length entry = 2 div 2 + 1"
    by auto
  have g1: "compute plain_window magnitude2 2 2 scenario_frames [] = Some (Inr (entries, windowed))"
    using r(1) by simp
  have g2: "length entries = 2" using r(2) len by simp
  have g3: "list_all (\<lambda>entry. length entry = 2) entries"
    using r(3) unfolding two by (simp add: list_all_iff)
  from g1 g2 g3 show ?thesis by blast
qed

text \<open>
  Claim C1 as stated fails at the scenario. The three bands' squared spectra of the two
  windows are \<open>[1, 1], [0, 0], [0, 0]\<close> and \<open>[4, 4], [0, 0], [4, 4]\<close>; the entries of the
  output are \<open>[0, 0]\<close> and \<open>[4, 4]\<close>, two values each, not the three band spectra.
\<close>

theorem scenario_entries_not_per_band:
  "compute plain_window magnitude2 2 2 scenario_frames [] =
     Some (Inr ([[0, 0], [4, 4]], [[0, 1], [0, 0], [0, 0], [2, 0], [0, 0], [2, 0]])) \<and>
   bandsDerivative scenario_frames 4 3 = Inr [[0, 1, 2, 0], [0, 0, 0, 0], [0, 0, 2, 0]] \<and>
   map (spec_band_spectra plain_window magnitude2 2 [[0, 1, 2, 0], [0, 0, 0, 0], [0, 0, 2, 0]] 3) [0, 2] =
     [[[1, 1], [0, 0], [0, 0]], [[4, 4], [0, 0], [4, 4]]] \<and>
   [[0, 0], [4, 4]] \<noteq> map concat [[[1, 1], [0, 0], [0, 0]], [[4, 4], [0, 0], [4, 4::real]]]"
proof (intro conjI)
  show "compute plain_window magnitude2 2 2 scenario_frames [] =
     Some (Inr ([[0, 0], [4, 4]], [[0, 1], [0, 0], [0, 0], [2, 0], [0, 0], [2, 0]]))"
    by (simp add: compute_def bandsDerivative_def scenario_frames_def window_loop.simps
        plain_window_def upt_rec eval_nat_numeral Let_def)
  show "bandsDerivative scenario_frames 4 3 = Inr [[0, 1, 2, 0], [0, 0, 0, 0], [0, 0, 2, 0]]"
    by (simp add: bandsDerivative_def scenario_frames_def upt_rec eval_nat_numeral)
  show "map (spec_band_spectra plain_window magnitude2 2 [[0, 1, 2, 0], [0, 0, 0, 0], [0, 0, 2, 0]] 3) [0, 2] =
     [[[1, 1], [0, 0], [0, 0]], [[4, 4], [0, 0], [4, 4]]]"
    by (simp add: spec_band_spectra_def spec_window_def plain_window_def upt_rec eval_nat_numeral)
  show "[[0, 0], [4, 4]] \<noteq> map concat [[[1, 1], [0, 0], [0, 0]], [[4, 4], [0, 0], [4, 4::real]]]"
    by simp
qed

text \<open>
  Claim C2, as amended. Under the same conditions, the frames handed to the windowing
  algorithm are, for the window positions \<open>0, hopSize, 2 * hopSize, ...\<close> below the
  frame count and, within a position, for the bands in order, the window of length
  \<open>frameSize\<close> over the band's derivative, zero-filled beyond its last index; no window
  that starts below the frame count is dropped. Every derivative index lies in some
  window when \<open>hopSize \<le> frameSize\<close>.
\<close>

theorem reframing_zero_padded_windows:
  fixes bands :: "('r::{zero,minus,times}) list list"
  assumes "0 < rtHopSize" and "bands \<noteq> []"
    and "\<forall>frame\<in>set bands. length frame = nBands"
    and "\<forall>x. length x = rtFrameSize \<longrightarrow> length (spec (w x)) \<le> rtFrameSize div 2 + 1"
  shows "\<exists>bd out m.
           bandsDerivative bands (length bands) nBands = Inr bd \<and>
           (\<forall>band<nBands. length (bd ! band) = length bands) \<and>
           (\<forall>k. k < m \<longleftrightarrow> k * rtHopSize < length bands) \<and>
           compute w spec rtFrameSize rtHopSize bands outp =
             Some (Inr (out,
               concat (map (\<lambda>k. map (\<lambda>band. spec_window (bd ! band) (k * rtHopSize) rtFrameSize)
                                     [0..<nBands]) [0..<m]))) \<and>
           (rtHopSize \<le> rtFrameSize \<longrightarrow> (\<forall>n<length bands. covered rtHopSize rtFrameSize m n))"
proof -
  let ?m = "(length bands - 1) div rtHopSize + 1"
  from compute_result[where w=w and spec=spec, OF assms]
  obtain bd out' where r:
    "bandsDerivative bands (length bands) nBands = Inr bd"
    "\<forall>b<nBands. length (bd ! b) = length bands"
    "compute w spec rtFrameSize rtHopSize bands outp =
       Some (Inr (outp @ out',
             concat (map (\<lambda>k. map (\<lambda>band. spec_window (bd ! band) (k * rtHopSize) rtFrameSize) [0..<nBands])
                         [0..<?m])))"
    by blast
  have "0 < length bands" using assms(2) by simp
  from window_count[OF assms(1) this]
  have m: "\<forall>k. k < ?m \<longleftrightarrow> k * rtHopSize < length bands" by simp
  have cov: "rtHopSize \<le> rtFrameSize \<longrightarrow> (\<forall>n<length bands. covered rtHopSize rtFrameSize ?m n)"
  proof (intro impI allI)
    fix n assume le: "rtHopSize \<le> rtFrameSize" and n: "n < length bands"
    let ?k = "n div rtHopSize"
    have a: "?k * rtHopSize \<le> n" by simp
    have "n < ?k * rtHopSize + rtHopSize"
      using assms(1) by (metis dividend_less_div_times mult.commute add.commute)
    then have b: "n < ?k * rtHopSize + rtFrameSize" using le by simp
    have "?k * rtHopSize < length bands" by (rule le_less_trans[OF a n])
    then have "?k < ?m" using m by blast
    then show "covered rtHopSize rtFrameSize ?m n" using a b unfolding covered_def by blast
  qed
  show ?thesis using r m cov by blast
qed

text \<open>
  The theorem at one band, three frames, frame size 2 and hop size 2: the second window
  starts at the last index and is filled with one zero.
\<close>

theorem reframing_zero_padded_windows_witness:
  "\<exists>out. bandsDerivative [[1], [5], [6::real]] 3 1 = Inr [[0, 4, 1]] \<and>
     compute plain_window magnitude2 2 2 [[1], [5], [6]] [] = Some (Inr (out, [[0, 4], [1, 0]])) \<and>
     covered 2 2 2 0 \<and> covered 2 2 2 1 \<and> covered 2 2 2 2"
proof -
  let ?bands = "[[1], [5], [6::real]]"
  have h3: "\<forall>x. length x = 2 \<longrightarrow> length (magnitude2 (plain_window x)) \<le> 2 div 2 + 1"
    using magnitude2_length[of "plain_window _"] by (simp add: numeral_2_eq_2)
  from reframing_zero_padded_windows[where w=plain_window and spec=magnitude2 and outp="[]"
      and bands="?bands" and nBands=1 and rtHopSize=2 and rtFrameSize=2, OF _ _ _ h3]
  obtain bd out m where r:
    "bandsDerivative ?bands (length ?bands) 1 = Inr bd"
    "\<forall>k. k < m \<longleftrightarrow> k * 2 < length ?bands"
    "compute plain_window magnitude2 2 2 ?bands [] =
       Some (Inr (out, concat (map (\<lambda>k. map (\<lambda>band. spec_window (bd ! band) (k * 2) 2) [0..<1]) [0..<m])))"
    "\<forall>n<length ?bands. covered 2 2 m n"
    by auto
  have len: "length ?bands = 3" by simp
  have e1: "bandsDerivative ?bands 3 1 = Inr bd" using r(1) unfolding len .
  have bd: "bd = [[0, 4, 1]]"
    using e1 by (simp add: bandsDerivative_def upt_rec eval_nat_numeral)
  have "1 < m" using r(2)[rule_format, of 1] by simp
  moreover have "\<not> 2 < m" using r(2)[rule_format, of 2] by simp
  ultimately have m: "m = 2" by simp
  have w: "concat (map (\<lambda>k. map (\<lambda>band. spec_window (bd ! band) (k * 2) 2) [0..<1]) [0..<m]) =
           [[0, 4], [1, 0]]"
    by (simp add: bd m spec_window_def upt_rec eval_nat_numeral)
  have g1: "bandsDerivative ?bands 3 1 = Inr [[0, 4, 1]]" using e1 unfolding bd .
  have g2: "compute plain_window magnitude2 2 2 ?bands [] = Some (Inr (out, [[0, 4], [1, 0]]))"
    using r(3) unfolding w .
  have g3: "covered 2 2 2 0 \<and> covered 2 2 2 1 \<and> covered 2 2 2 2"
    using r(4) m by simp
  from g1 g2 g3 show ?thesis by blast
qed

text \<open>
  Claim C2 as stated fails where the hop size exceeds the frame size. With one band, two
  frames, frame size 1 and hop size 2, the only window is the one at position 0: index 1
  of the derivative, which holds 4, lies in no window.
\<close>

theorem hop_beyond_frameSize_leaves_gap:
  "bandsDerivative [[1], [5::real]] 2 1 = Inr [[0, 4]] \<and>
   compute plain_window plain_window 1 2 [[1], [5]] [] = Some (Inr ([[0]], [[0]])) \<and>
   \<not> covered 2 1 1 1"
proof (intro conjI)
  show "bandsDerivative [[1], [5::real]] 2 1 = Inr [[0, 4]]"
    by (simp add: bandsDerivative_def upt_rec eval_nat_numeral)
  show "compute plain_window plain_window 1 2 [[1], [5]] [] = Some (Inr ([[0]], [[0]]))"
    by (simp add: compute_def bandsDerivative_def window_loop.simps
        plain_window_def upt_rec eval_nat_numeral Let_def)
  show "\<not> covered 2 1 1 1" by (simp add: covered_def)
qed

text \<open>
  Claim C8. The claim asks that an input of no frame fail fast or give an empty result,
  without reading the band count of a first frame. The source reads \<open>bands[0].size()\<close>
  before anything else: on the empty input that subscript is out of range.
\<close>

theorem compute_empty_input_out_of_range:
  "compute w spec rtFrameSize rtHopSize [] outp = Some (Inl IndexOutOfRange)"
  by (simp add: compute_def)

section \<open>The store: sub-containers, \<open>add\<close> and \<open>append\<close>\<close>

lemma sub_lens_Real: "sub_lens poolReal poolReal_update others_Real"
  unfolding sub_lens_def
  by (intro conjI allI impI) (auto simp: descriptorNames_def others_Real_def)

lemma sub_lens_VectorReal: "sub_lens poolVectorReal poolVectorReal_update others_VectorReal"
  unfolding sub_lens_def
  by (intro conjI allI impI) (auto simp: descriptorNames_def others_VectorReal_def)

lemma sub_lens_String: "sub_lens poolString poolString_update others_String"
  unfolding sub_lens_def
  by (intro conjI allI impI) (auto simp: descriptorNames_def others_String_def)

lemma sub_lens_VectorString: "sub_lens poolVectorString poolVectorString_update others_VectorString"
  unfolding sub_lens_def
  by (intro conjI allI impI) (auto simp: descriptorNames_def others_VectorString_def)

lemma sub_lens_StereoSample: "sub_lens poolStereoSample poolStereoSample_update others_StereoSample"
  unfolding sub_lens_def
  by (intro conjI allI impI) (auto simp: descriptorNames_def others_StereoSample_def)

lemma namespacePrefix_irrefl [simp]: "\<not> namespacePrefix a a"
proof
  assume "namespacePrefix a a"
  then have "length (take (length a + 1) a) = length (a @ ''.'')"
    unfolding namespacePrefix_def by simp
  then show False by simp
qed

lemma namespaceConflict_insert_self:
  "namespaceConflict (insert name names) name = namespaceConflict names name"
  by (auto simp: namespaceConflict_def)

lemma names_after_update:
  assumes "sub_lens sub upd others" "dom (f (sub p)) = insert name (dom (sub p))"
  shows "descriptorNames (upd f p) = insert name (descriptorNames p)"
proof -
  from assms(1) have o: "\<And>p. descriptorNames p = dom (sub p) \<union> others p"
    and o': "\<And>f p. others (upd f p) = others p"
    and s: "\<And>f p. sub (upd f p) = f (sub p)"
    unfolding sub_lens_def by blast+
  have "descriptorNames (upd f p) = dom (sub (upd f p)) \<union> others (upd f p)" by (rule o)
  also have "\<dots> = insert name (dom (sub p)) \<union> others p" by (simp only: s o' assms(2))
  also have "\<dots> = insert name (descriptorNames p)" by (simp add: o)
  finally show ?thesis .
qed

lemma vec_at_Inr: "i < length xs \<Longrightarrow> vec_at xs i = Inr (xs ! i)"
  by (simp add: vec_at_def)

lemma vec_put_Inr: "i < length xs \<Longrightarrow> vec_put xs i x = Inr (xs[i := x])"
  by (simp add: vec_put_def)

lemma fastcopy_separate:
  "\<forall>k\<in>set ks. k < length values \<and> off + k < length v \<Longrightarrow>
   \<exists>v'. fastcopy False values off ks v = Inr v' \<and> length v' = length v \<and>
        (\<forall>i<length v. v' ! i =
           (if off \<le> i \<and> i - off \<in> set ks then values ! (i - off) else v ! i))"
proof (induction ks arbitrary: v)
  case Nil
  then show ?case by simp
next
  case (Cons k ks)
  let ?v1 = "v[off + k := values ! k]"
  have k: "k < length values" "off + k < length v" using Cons.prems by auto
  have "\<forall>k\<in>set ks. k < length values \<and> off + k < length ?v1" using Cons.prems by auto
  from Cons.IH[OF this] obtain v' where v':
    "fastcopy False values off ks ?v1 = Inr v'" "length v' = length v"
    "\<forall>i<length v. v' ! i =
        (if off \<le> i \<and> i - off \<in> set ks then values ! (i - off) else ?v1 ! i)"
    by auto
  have run: "fastcopy False values off (k # ks) v = Inr v'"
    using k v'(1) by (simp add: vec_at_Inr vec_put_Inr andThen_def)
  have "v' ! i = (if off \<le> i \<and> i - off \<in> set (k # ks) then values ! (i - off) else v ! i)"
    if "i < length v" for i
  proof (cases "i = off + k")
    case True
    then show ?thesis using v'(3) that k by (auto simp: nth_list_update)
  next
    case False
    then have "i - off = k \<Longrightarrow> \<not> off \<le> i" by auto
    then show ?thesis using v'(3) that False by (auto simp: nth_list_update)
  qed
  then show ?case using run v'(2) by blast
qed

lemma append_found_separate:
  assumes "values \<noteq> []"
  shows "append_found dflt False values v = Inr (v @ values)"
proof -
  let ?v1 = "v @ replicate (length values) dflt"
  have r: "resize dflt v (length v + length values) = ?v1" by (simp add: resize_def)
  have "\<forall>k\<in>set [0..<length values]. k < length values \<and> length v + k < length ?v1" by simp
  from fastcopy_separate[OF this] obtain v' where v':
    "fastcopy False values (length v) [0..<length values] ?v1 = Inr v'"
    "length v' = length ?v1"
    "\<forall>i<length ?v1. v' ! i =
        (if length v \<le> i \<and> i - length v \<in> set [0..<length values]
         then values ! (i - length v) else ?v1 ! i)"
    by blast
  have "v' = v @ values"
  proof (rule nth_equalityI)
    show "length v' = length (v @ values)" using v'(2) by simp
  next
    fix i assume "i < length v'"
    then have i: "i < length ?v1" using v'(2) by simp
    then show "v' ! i = (v @ values) ! i" using v'(3) by (auto simp: nth_append)
  qed
  moreover have "vec_at ?v1 (length v) = Inr (?v1 ! length v)"
    using assms by (simp add: vec_at_Inr)
  moreover have "vec_at values 0 = Inr (values ! 0)"
    using assms by (simp add: vec_at_Inr)
  ultimately show ?thesis using v'(1)
    by (simp add: append_found_def r Let_def andThen_def del: replicate.simps)
qed

lemma append_found_empty: "append_found dflt False [] v = Inl IndexOutOfRange"
  by (simp add: append_found_def resize_def vec_at_def andThen_def)

lemma add_present:
  assumes L: "sub_lens sub upd others" and pres: "sub p name = Some old"
    and ty: "name \<notin> others p"
    and ok: "\<not> namespaceConflict (descriptorNames p) name"
  shows "add sub upd others nonfinite name v False p = (None, upd (\<lambda>m. m(name \<mapsto> old @ [v])) p)"
proof -
  have a2: "\<And>f g p. f (sub p) = g (sub p) \<Longrightarrow> upd f p = upd g p"
    using L unfolding sub_lens_def by blast
  have "upd (\<lambda>m. m(name \<mapsto> (case m name of None \<Rightarrow> [] | Some old \<Rightarrow> old) @ [v])) p =
        upd (\<lambda>m. m(name \<mapsto> old @ [v])) p"
    by (rule a2) (simp add: pres)
  then show ?thesis using ty ok by (simp add: add_def)
qed

lemma repeated_add_present:
  assumes L: "sub_lens sub upd others"
  shows "sub p name = Some old \<Longrightarrow> name \<notin> others p \<Longrightarrow>
         \<not> namespaceConflict (descriptorNames p) name \<Longrightarrow>
         repeated_add sub upd others nonfinite name vs p =
           (None, upd (\<lambda>m. m(name \<mapsto> old @ vs)) p)"
proof (induction vs arbitrary: p old)
  case Nil
  have a2: "\<And>f g p. f (sub p) = g (sub p) \<Longrightarrow> upd f p = upd g p"
    and a4: "\<And>p. upd (\<lambda>m. m) p = p"
    using L unfolding sub_lens_def by blast+
  have "upd (\<lambda>m. m(name \<mapsto> old @ [])) p = upd (\<lambda>m. m) p"
    by (rule a2) (simp add: Nil.prems(1) map_upd_triv)
  then have e: "upd (\<lambda>m. m(name \<mapsto> old @ [])) p = p" by (simp only: a4)
  show ?case by (simp only: repeated_add.simps e)
next
  case (Cons v vs)
  have a1: "\<And>f p. sub (upd f p) = f (sub p)"
    and a2: "\<And>f g p. f (sub p) = g (sub p) \<Longrightarrow> upd f p = upd g p"
    and a3: "\<And>f g p. upd g (upd f p) = upd (\<lambda>m. g (f m)) p"
    and a6: "\<And>f p. others (upd f p) = others p"
    using L unfolding sub_lens_def by blast+
  let ?p1 = "upd (\<lambda>m. m(name \<mapsto> old @ [v])) p"
  have step: "add sub upd others nonfinite name v False p = (None, ?p1)"
    by (rule add_present[OF L Cons.prems])
  have s1: "sub ?p1 name = Some (old @ [v])" by (simp add: a1)
  have ty1: "name \<notin> others ?p1" using Cons.prems(2) by (simp add: a6)
  have "descriptorNames ?p1 = insert name (descriptorNames p)"
    by (rule names_after_update[OF L]) (use Cons.prems(1) in \<open>auto simp: dom_def\<close>)
  then have ok1: "\<not> namespaceConflict (descriptorNames ?p1) name"
    using Cons.prems(3) by (simp add: namespaceConflict_insert_self)
  have "repeated_add sub upd others nonfinite name vs ?p1 =
          (None, upd (\<lambda>m. m(name \<mapsto> (old @ [v]) @ vs)) ?p1)"
    by (rule Cons.IH[OF s1 ty1 ok1])
  also have "upd (\<lambda>m. m(name \<mapsto> (old @ [v]) @ vs)) ?p1 = upd (\<lambda>m. m(name \<mapsto> old @ v # vs)) p"
    by (simp add: a3)
  finally have rest: "repeated_add sub upd others nonfinite name vs ?p1 =
      (None, upd (\<lambda>m. m(name \<mapsto> old @ v # vs)) p)" .
  show ?case by (simp only: repeated_add.simps step prod.case option.case rest)
qed

lemma repeated_add_absent:
  assumes L: "sub_lens sub upd others" and abs: "sub p name = None"
  shows "repeated_add sub upd others nonfinite name (v # vs) p =
           (case validateKey p name of
              Some e \<Rightarrow> (Some e, p)
            | None \<Rightarrow> (None, upd (\<lambda>m. m(name \<mapsto> v # vs)) p))"
proof -
  have a1: "\<And>f p. sub (upd f p) = f (sub p)"
    and a2: "\<And>f g p. f (sub p) = g (sub p) \<Longrightarrow> upd f p = upd g p"
    and a3: "\<And>f g p. upd g (upd f p) = upd (\<lambda>m. g (f m)) p"
    and a5: "\<And>p. descriptorNames p = dom (sub p) \<union> others p"
    and a6: "\<And>f p. others (upd f p) = others p"
    using L unfolding sub_lens_def by blast+
  have mem: "name \<in> descriptorNames p \<longleftrightarrow> name \<in> others p"
    using abs by (auto simp: a5 dom_def)
  show ?thesis
  proof (cases "validateKey p name")
    case (Some e)
    then have "add sub upd others nonfinite name v False p = (Some e, p)"
      using mem by (auto simp: add_def validateKey_def split: if_splits)
    then show ?thesis using Some by simp
  next
    case None
    from None have ok: "name \<notin> others p" "\<not> namespaceConflict (descriptorNames p) name"
      using mem by (auto simp: validateKey_def split: if_splits)
    let ?p1 = "upd (\<lambda>m. m(name \<mapsto> [v])) p"
    have "upd (\<lambda>m. m(name \<mapsto> (case m name of None \<Rightarrow> [] | Some old \<Rightarrow> old) @ [v])) p = ?p1"
      by (rule a2) (simp add: abs)
    then have step: "add sub upd others nonfinite name v False p = (None, ?p1)"
      using ok by (simp add: add_def)
    have s1: "sub ?p1 name = Some [v]" by (simp add: a1)
    have ty1: "name \<notin> others ?p1" using ok(1) by (simp add: a6)
    have "descriptorNames ?p1 = insert name (descriptorNames p)"
      by (rule names_after_update[OF L]) auto
    then have ok1: "\<not> namespaceConflict (descriptorNames ?p1) name"
      using ok(2) by (simp add: namespaceConflict_insert_self)
    have "repeated_add sub upd others nonfinite name vs ?p1 =
            (None, upd (\<lambda>m. m(name \<mapsto> [v] @ vs)) ?p1)"
      by (rule repeated_add_present[OF L s1 ty1 ok1])
    also have "upd (\<lambda>m. m(name \<mapsto> [v] @ vs)) ?p1 = upd (\<lambda>m. m(name \<mapsto> v # vs)) p"
      by (simp add: a3)
    finally have rest: "repeated_add sub upd others nonfinite name vs ?p1 =
        (None, upd (\<lambda>m. m(name \<mapsto> v # vs)) p)" .
    show ?thesis by (simp only: repeated_add.simps step prod.case option.case rest None)
  qed
qed

lemma specialize_append_present:
  assumes "sub p name = Some old" "values \<noteq> []"
  shows "specialize_append sub upd dflt vk name values False p =
           (None, upd (\<lambda>m. m(name \<mapsto> old @ values)) p)"
  by (simp add: specialize_append_def assms append_found_separate)

lemma specialize_append_present_empty:
  assumes "sub p name = Some old"
  shows "specialize_append sub upd dflt vk name [] False p = (Some IndexOutOfRange, p)"
  by (simp add: specialize_append_def assms append_found_empty)

lemma specialize_append_absent:
  assumes "sub p name = None"
  shows "specialize_append sub upd dflt vk name values al p =
           (case vk p name of
              Some e \<Rightarrow> (Some e, p)
            | None \<Rightarrow> (None, upd (\<lambda>m. m(name \<mapsto> values)) p))"
  by (simp add: specialize_append_def assms)

lemma specialize_append_as_repeated_add:
  assumes L: "sub_lens sub upd others"
    and ne: "values \<noteq> []"
    and ok: "name \<in> dom (sub p) \<longrightarrow>
               name \<notin> others p \<and> \<not> namespaceConflict (descriptorNames p) name"
  shows "specialize_append sub upd dflt validateKey name values False p =
         repeated_add sub upd others nonfinite name values p"
proof (cases "sub p name")
  case None
  obtain v vs where "values = v # vs" using ne by (cases "values") auto
  then show ?thesis using repeated_add_absent[OF L None]
    by (simp add: specialize_append_absent[where sub=sub and p=p and name=name, OF None])
next
  case (Some old)
  then have "name \<notin> others p" "\<not> namespaceConflict (descriptorNames p) name" using ok by auto
  from repeated_add_present[OF L Some this] show ?thesis
    by (simp add: specialize_append_present[where sub=sub and p=p and name=name, OF Some ne])
qed

lemma descriptorNames_poolB: "descriptorNames poolB = {''a'', ''a.b''}"
  by (auto simp: descriptorNames_def poolB_def emptyPool_def)

lemma scenario_compute:
  "compute plain_window magnitude2 2 2 scenario_frames [] =
     Some (Inr ([[0, 0], [4, 4]], [[0, 1], [0, 0], [0, 0], [2, 0], [0, 0], [2, 0]]))"
  by (simp add: compute_def bandsDerivative_def scenario_frames_def window_loop.simps
        plain_window_def upt_rec eval_nat_numeral Let_def)

lemma push_all_as_repeated_add:
  "push_all frames st =
     (case repeated_add poolVectorReal poolVectorReal_update others_VectorReal (\<lambda>v. False) mel_bands frames (pool st) of
        (e, p') \<Rightarrow> (e, st\<lparr>pool := p'\<rparr>))"
proof (induction frames arbitrary: st)
  case Nil
  then show ?case by simp
next
  case (Cons frame frames)
  show ?case
  proof (cases "add poolVectorReal poolVectorReal_update others_VectorReal (\<lambda>v. False) mel_bands frame False (pool st)")
    case (Pair e p')
    then show ?thesis using Cons.IH[of "st\<lparr>pool := p'\<rparr>"]
      by (cases e) (simp_all add: push_def)
  qed
qed

lemma validateKey_emptyPool: "validateKey emptyPool name = None"
  by (simp add: validateKey_def descriptorNames_def namespaceConflict_def emptyPool_def)

lemma push_all_on_empty:
  assumes "pool st = emptyPool"
  shows "push_all (frame # frames) st =
           (None, st\<lparr>pool := emptyPool\<lparr>poolVectorReal := [mel_bands \<mapsto> frame # frames]\<rparr>\<rparr>)"
proof -
  have "poolVectorReal (emptyPool :: 'a Pool) mel_bands = None" by (simp add: emptyPool_def)
  from repeated_add_absent[OF sub_lens_VectorReal this, of "\<lambda>v. False" frame frames]
  have "repeated_add poolVectorReal poolVectorReal_update others_VectorReal (\<lambda>v. False) mel_bands (frame # frames)
          (emptyPool :: 'a Pool) =
        (None, poolVectorReal_update (\<lambda>m. m(mel_bands \<mapsto> frame # frames)) emptyPool)"
    by (simp only: validateKey_emptyPool option.case)
  moreover have "poolVectorReal_update (\<lambda>m. m(mel_bands \<mapsto> frame # frames)) (emptyPool :: 'a Pool) =
        emptyPool\<lparr>poolVectorReal := [mel_bands \<mapsto> frame # frames]\<rparr>"
    by (simp add: emptyPool_def)
  ultimately show ?thesis
    by (simp only: push_all_as_repeated_add assms prod.case)
qed

lemma reset_is_newStage: "reset st = newStage (frameSize st) (hopSize st)"
  by (simp add: reset_def newStage_def clear_def)

section \<open>The claims about the store\<close>

text \<open>
  Claim C5. The lookup of kind sequence of real returns the sequence stored under the
  name in the accumulating real sub-container when the name is there; otherwise the value
  stored under it in the single sequence-of-real sub-container when it is there; it fails
  exactly when the name is in neither, and the failure is NotFound. \<open>contains\<close> of that
  kind is true exactly when the name is in at least one of the two.
\<close>

theorem lookup_sequence_of_real:
  "(\<forall>v. poolReal p name = Some v \<longrightarrow> value_vector_Real p name = Inr v) \<and>
   (\<forall>v. poolReal p name = None \<and> poolSingleVectorReal p name = Some v \<longrightarrow>
        value_vector_Real p name = Inr v) \<and>
   (isl (value_vector_Real p name) \<longleftrightarrow>
      name \<notin> dom (poolReal p) \<and> name \<notin> dom (poolSingleVectorReal p)) \<and>
   (isl (value_vector_Real p name) \<longrightarrow> value_vector_Real p name = Inl (NotFound name)) \<and>
   (contains_vector_Real p name \<longleftrightarrow>
      name \<in> dom (poolReal p) \<or> name \<in> dom (poolSingleVectorReal p))"
  by (auto simp: value_vector_Real_def contains_vector_Real_def split: option.splits)

text \<open>
  The theorem at \<open>poolA\<close>: for a name in both sub-containers the accumulated sequence
  wins; a name in the single sub-container only is found there; a name in neither is not
  found.
\<close>

theorem lookup_sequence_of_real_witness:
  "value_vector_Real poolA ''lowlevel.bpm'' = Inr [1, 2] \<and>
   value_vector_Real poolA ''lowlevel.mfcc'' = Inr [7, 8] \<and>
   value_vector_Real poolA ''rhythm.bpm'' = Inl (NotFound ''rhythm.bpm'') \<and>
   contains_vector_Real poolA ''lowlevel.bpm'' \<and> contains_vector_Real poolA ''lowlevel.mfcc'' \<and>
   \<not> contains_vector_Real poolA ''rhythm.bpm''"
proof -
  have a: "poolReal poolA ''lowlevel.bpm'' = Some [1, 2]" by (simp add: poolA_def emptyPool_def)
  have b: "poolReal poolA ''lowlevel.mfcc'' = None \<and>
           poolSingleVectorReal poolA ''lowlevel.mfcc'' = Some [7, 8]"
    by (simp add: poolA_def emptyPool_def)
  have c: "''rhythm.bpm'' \<notin> dom (poolReal poolA) \<and> ''rhythm.bpm'' \<notin> dom (poolSingleVectorReal poolA)"
    by (simp add: poolA_def emptyPool_def)
  have d: "''lowlevel.mfcc'' \<in> dom (poolSingleVectorReal poolA)"
    by (simp add: poolA_def emptyPool_def)
  from lookup_sequence_of_real[of poolA "''lowlevel.bpm''"] a
  have g1: "value_vector_Real poolA ''lowlevel.bpm'' = Inr [1, 2]"
    and g4: "contains_vector_Real poolA ''lowlevel.bpm''" by auto
  from lookup_sequence_of_real[of poolA "''lowlevel.mfcc''"] b d
  have g2: "value_vector_Real poolA ''lowlevel.mfcc'' = Inr [7, 8]"
    and g5: "contains_vector_Real poolA ''lowlevel.mfcc''" by auto
  from lookup_sequence_of_real[of poolA "''rhythm.bpm''"] c
  have g3: "value_vector_Real poolA ''rhythm.bpm'' = Inl (NotFound ''rhythm.bpm'')"
    and g6: "\<not> contains_vector_Real poolA ''rhythm.bpm''" by auto
  from g1 g2 g3 g4 g5 g6 show ?thesis by simp
qed

text \<open>
  Claim C10, as amended. For a name that is present in the accumulating sub-container
  of its kind and a sequence \<open>values\<close> that is not empty and is not the stored vector
  itself, \<open>append\<close> puts the elements of \<open>values\<close>, in order, after the existing
  elements and throws nothing, whatever \<open>validateKey\<close> would answer and whatever the
  values are: on this path the key is not validated and no value is checked. For an
  empty \<open>values\<close> the two subscripts \<open>v[vsize]\<close> and \<open>values[0]\<close> of line 498 are out
  of range.
\<close>

theorem append_present_nonempty_concatenates:
  "(\<forall>old. poolReal p name = Some old \<longrightarrow>
      (rs \<noteq> [] \<longrightarrow>
         append_Real vk name rs False p =
           (None, p\<lparr>poolReal := (poolReal p)(name \<mapsto> old @ rs)\<rparr>)) \<and>
      append_Real vk name [] False p = (Some IndexOutOfRange, p)) \<and>
   (\<forall>old. poolVectorReal p name = Some old \<longrightarrow>
      (vrs \<noteq> [] \<longrightarrow>
         append_VectorReal vk name vrs False p =
           (None, p\<lparr>poolVectorReal := (poolVectorReal p)(name \<mapsto> old @ vrs)\<rparr>)) \<and>
      append_VectorReal vk name [] False p = (Some IndexOutOfRange, p)) \<and>
   (\<forall>old. poolString p name = Some old \<longrightarrow>
      (ss \<noteq> [] \<longrightarrow>
         append_String vk name ss False p =
           (None, p\<lparr>poolString := (poolString p)(name \<mapsto> old @ ss)\<rparr>)) \<and>
      append_String vk name [] False p = (Some IndexOutOfRange, p)) \<and>
   (\<forall>old. poolVectorString p name = Some old \<longrightarrow>
      (vss \<noteq> [] \<longrightarrow>
         append_VectorString vk name vss False p =
           (None, p\<lparr>poolVectorString := (poolVectorString p)(name \<mapsto> old @ vss)\<rparr>)) \<and>
      append_VectorString vk name [] False p = (Some IndexOutOfRange, p)) \<and>
   (\<forall>old. poolStereoSample p name = Some old \<longrightarrow>
      (sts \<noteq> [] \<longrightarrow>
         append_StereoSample vk name sts False p =
           (None, p\<lparr>poolStereoSample := (poolStereoSample p)(name \<mapsto> old @ sts)\<rparr>)) \<and>
      append_StereoSample vk name [] False p = (Some IndexOutOfRange, p))"
  by (simp add: append_Real_def append_VectorReal_def append_String_def
      append_VectorString_def append_StereoSample_def specialize_append_present
      specialize_append_present_empty)

text \<open>
  The theorem at \<open>poolB\<close>, with a key validation that rejects every name: the values
  are appended under \<open>a\<close> although \<open>a\<close> is the namespace of \<open>a.b\<close>, a conflict that
  the validation of the specification reports.
\<close>

theorem append_present_nonempty_concatenates_witness:
  "append_Real (\<lambda>p n. Some (NamespaceConflict n)) ''a'' [2, 3] False poolB =
     (None, poolB\<lparr>poolReal := [''a'' \<mapsto> [1, 2, 3]]\<rparr>) \<and>
   validateKey poolB ''a'' = Some (TypeConflict ''a'') \<and>
   namespaceConflict (descriptorNames poolB) ''a''"
proof -
  have a: "poolReal poolB ''a'' = Some [1]" by (simp add: poolB_def emptyPool_def)
  have ne: "[2, 3] \<noteq> ([] :: real list)" by simp
  from append_present_nonempty_concatenates[of poolB "''a''" "[2, 3]"
      "\<lambda>p n. Some (NamespaceConflict n)"] a ne
  have "append_Real (\<lambda>p n. Some (NamespaceConflict n)) ''a'' [2, 3] False poolB =
     (None, poolB\<lparr>poolReal := (poolReal poolB)(''a'' \<mapsto> [1] @ [2, 3])\<rparr>)" by blast
  moreover have "(poolReal poolB)(''a'' \<mapsto> [1] @ [2, 3]) = [''a'' \<mapsto> [1, 2, 3]]"
    by (simp add: poolB_def emptyPool_def)
  moreover have "validateKey poolB ''a'' = Some (TypeConflict ''a'')"
    by (simp add: validateKey_def descriptorNames_def poolB_def emptyPool_def)
  moreover have "namespaceConflict (descriptorNames poolB) ''a''"
    by (simp add: namespaceConflict_def namespacePrefix_def descriptorNames_def poolB_def emptyPool_def)
  ultimately show ?thesis by simp
qed

text \<open>
  Claim C10 as stated fails at \<open>poolB\<close>, where \<open>a\<close> holds the one real 1. With no
  value to append, \<open>v[vsize]\<close> is the subscript 1 of a vector of one element and
  \<open>values[0]\<close> the subscript 0 of an empty one. With \<open>values\<close> the stored vector
  itself, \<open>values.size()\<close> is 2 after the \<open>resize\<close>, and the second of the two copies
  writes at subscript 2 of a vector of two elements.
\<close>

theorem append_present_out_of_range:
  "poolReal poolB ''a'' = Some [1] \<and>
   append_Real (\<lambda>p n. None) ''a'' [] False poolB = (Some IndexOutOfRange, poolB) \<and>
   append_Real (\<lambda>p n. None) ''a'' [1] True poolB = (Some IndexOutOfRange, poolB)"
  by (simp add: append_Real_def specialize_append_def append_found_def resize_def
      vec_at_def vec_put_def andThen_def upt_rec poolB_def emptyPool_def Let_def)

text \<open>
  Claim C6, as amended. \<open>append\<close> at an element type without a specialisation, such as
  the two-dimensional real matrix, throws Unsupported and leaves the store as it was. At
  the five specialised kinds, \<open>append(name, values)\<close> with a sequence \<open>values\<close> that
  is not empty and is not the stored vector itself does what one \<open>add\<close> for each value
  in order does, on a store where a name present in the sub-container of the kind is in
  no other sub-container and in no namespace conflict. With an empty \<open>values\<close> and a
  name absent from the sub-container, \<open>append\<close> validates the key and, when the key is
  valid, creates the name with an empty sequence.
\<close>

theorem append_unsupported_or_repeated_add:
  "append_unspecialized name values p = (Some Unsupported, p) \<and>
   append_Array2DReal name arrays p = (Some Unsupported, p) \<and>
   (rs \<noteq> [] \<and>
    (name \<in> dom (poolReal p) \<longrightarrow>
       name \<notin> others_Real p \<and> \<not> namespaceConflict (descriptorNames p) name) \<longrightarrow>
      append_Real validateKey name rs False p =
        repeated_add poolReal poolReal_update others_Real nf1 name rs p) \<and>
   (poolReal p name = None \<longrightarrow>
      append_Real validateKey name [] al p =
        (case validateKey p name of
           Some e \<Rightarrow> (Some e, p)
         | None \<Rightarrow> (None, p\<lparr>poolReal := (poolReal p)(name \<mapsto> [])\<rparr>))) \<and>
   (vrs \<noteq> [] \<and>
    (name \<in> dom (poolVectorReal p) \<longrightarrow>
       name \<notin> others_VectorReal p \<and> \<not> namespaceConflict (descriptorNames p) name) \<longrightarrow>
      append_VectorReal validateKey name vrs False p =
        repeated_add poolVectorReal poolVectorReal_update others_VectorReal nf2 name vrs p) \<and>
   (poolVectorReal p name = None \<longrightarrow>
      append_VectorReal validateKey name [] al p =
        (case validateKey p name of
           Some e \<Rightarrow> (Some e, p)
         | None \<Rightarrow> (None, p\<lparr>poolVectorReal := (poolVectorReal p)(name \<mapsto> [])\<rparr>))) \<and>
   (ss \<noteq> [] \<and>
    (name \<in> dom (poolString p) \<longrightarrow>
       name \<notin> others_String p \<and> \<not> namespaceConflict (descriptorNames p) name) \<longrightarrow>
      append_String validateKey name ss False p =
        repeated_add poolString poolString_update others_String nf3 name ss p) \<and>
   (poolString p name = None \<longrightarrow>
      append_String validateKey name [] al p =
        (case validateKey p name of
           Some e \<Rightarrow> (Some e, p)
         | None \<Rightarrow> (None, p\<lparr>poolString := (poolString p)(name \<mapsto> [])\<rparr>))) \<and>
   (vss \<noteq> [] \<and>
    (name \<in> dom (poolVectorString p) \<longrightarrow>
       name \<notin> others_VectorString p \<and> \<not> namespaceConflict (descriptorNames p) name) \<longrightarrow>
      append_VectorString validateKey name vss False p =
        repeated_add poolVectorString poolVectorString_update others_VectorString nf4 name vss p) \<and>
   (poolVectorString p name = None \<longrightarrow>
      append_VectorString validateKey name [] al p =
        (case validateKey p name of
           Some e \<Rightarrow> (Some e, p)
         | None \<Rightarrow> (None, p\<lparr>poolVectorString := (poolVectorString p)(name \<mapsto> [])\<rparr>))) \<and>
   (sts \<noteq> [] \<and>
    (name \<in> dom (poolStereoSample p) \<longrightarrow>
       name \<notin> others_StereoSample p \<and> \<not> namespaceConflict (descriptorNames p) name) \<longrightarrow>
      append_StereoSample validateKey name sts False p =
        repeated_add poolStereoSample poolStereoSample_update others_StereoSample nf5 name sts p) \<and>
   (poolStereoSample p name = None \<longrightarrow>
      append_StereoSample validateKey name [] al p =
        (case validateKey p name of
           Some e \<Rightarrow> (Some e, p)
         | None \<Rightarrow> (None, p\<lparr>poolStereoSample := (poolStereoSample p)(name \<mapsto> [])\<rparr>)))"
proof (intro conjI impI)
  show "append_unspecialized name values p = (Some Unsupported, p)"
    by (simp add: append_unspecialized_def)
  show "append_Array2DReal name arrays p = (Some Unsupported, p)"
    by (simp add: append_Array2DReal_def append_unspecialized_def)
next
  assume "rs \<noteq> [] \<and>
    (name \<in> dom (poolReal p) \<longrightarrow>
       name \<notin> others_Real p \<and> \<not> namespaceConflict (descriptorNames p) name)"
  then show "append_Real validateKey name rs False p =
        repeated_add poolReal poolReal_update others_Real nf1 name rs p"
    unfolding append_Real_def
    by (intro specialize_append_as_repeated_add[OF sub_lens_Real]) simp_all
next
  assume "poolReal p name = None"
  then show "append_Real validateKey name [] al p =
        (case validateKey p name of
           Some e \<Rightarrow> (Some e, p)
         | None \<Rightarrow> (None, p\<lparr>poolReal := (poolReal p)(name \<mapsto> [])\<rparr>))"
    by (simp add: append_Real_def specialize_append_absent split: option.split)
next
  assume "vrs \<noteq> [] \<and>
    (name \<in> dom (poolVectorReal p) \<longrightarrow>
       name \<notin> others_VectorReal p \<and> \<not> namespaceConflict (descriptorNames p) name)"
  then show "append_VectorReal validateKey name vrs False p =
        repeated_add poolVectorReal poolVectorReal_update others_VectorReal nf2 name vrs p"
    unfolding append_VectorReal_def
    by (intro specialize_append_as_repeated_add[OF sub_lens_VectorReal]) simp_all
next
  assume "poolVectorReal p name = None"
  then show "append_VectorReal validateKey name [] al p =
        (case validateKey p name of
           Some e \<Rightarrow> (Some e, p)
         | None \<Rightarrow> (None, p\<lparr>poolVectorReal := (poolVectorReal p)(name \<mapsto> [])\<rparr>))"
    by (simp add: append_VectorReal_def specialize_append_absent split: option.split)
next
  assume "ss \<noteq> [] \<and>
    (name \<in> dom (poolString p) \<longrightarrow>
       name \<notin> others_String p \<and> \<not> namespaceConflict (descriptorNames p) name)"
  then show "append_String validateKey name ss False p =
        repeated_add poolString poolString_update others_String nf3 name ss p"
    unfolding append_String_def
    by (intro specialize_append_as_repeated_add[OF sub_lens_String]) simp_all
next
  assume "poolString p name = None"
  then show "append_String validateKey name [] al p =
        (case validateKey p name of
           Some e \<Rightarrow> (Some e, p)
         | None \<Rightarrow> (None, p\<lparr>poolString := (poolString p)(name \<mapsto> [])\<rparr>))"
    by (simp add: append_String_def specialize_append_absent split: option.split)
next
  assume "vss \<noteq> [] \<and>
    (name \<in> dom (poolVectorString p) \<longrightarrow>
       name \<notin> others_VectorString p \<and> \<not> namespaceConflict (descriptorNames p) name)"
  then show "append_VectorString validateKey name vss False p =
        repeated_add poolVectorString poolVectorString_update others_VectorString nf4 name vss p"
    unfolding append_VectorString_def
    by (intro specialize_append_as_repeated_add[OF sub_lens_VectorString]) simp_all
next
  assume "poolVectorString p name = None"
  then show "append_VectorString validateKey name [] al p =
        (case validateKey p name of
           Some e \<Rightarrow> (Some e, p)
         | None \<Rightarrow> (None, p\<lparr>poolVectorString := (poolVectorString p)(name \<mapsto> [])\<rparr>))"
    by (simp add: append_VectorString_def specialize_append_absent split: option.split)
next
  assume "sts \<noteq> [] \<and>
    (name \<in> dom (poolStereoSample p) \<longrightarrow>
       name \<notin> others_StereoSample p \<and> \<not> namespaceConflict (descriptorNames p) name)"
  then show "append_StereoSample validateKey name sts False p =
        repeated_add poolStereoSample poolStereoSample_update others_StereoSample nf5 name sts p"
    unfolding append_StereoSample_def
    by (intro specialize_append_as_repeated_add[OF sub_lens_StereoSample]) simp_all
next
  assume "poolStereoSample p name = None"
  then show "append_StereoSample validateKey name [] al p =
        (case validateKey p name of
           Some e \<Rightarrow> (Some e, p)
         | None \<Rightarrow> (None, p\<lparr>poolStereoSample := (poolStereoSample p)(name \<mapsto> [])\<rparr>))"
    by (simp add: append_StereoSample_def specialize_append_absent split: option.split)
qed

text \<open>
  The theorem at \<open>poolB\<close>: appending two reals under the new name \<open>c\<close> and adding them
  one by one give the same store; appending a string under \<open>a\<close>, which holds reals, and
  adding it both fail with TypeConflict; appending no real under the new name \<open>c\<close>
  creates it; appending matrices is unsupported.
\<close>

theorem append_unsupported_or_repeated_add_witness:
  "append_Array2DReal ''c'' [[[1]]] poolB = (Some Unsupported, poolB) \<and>
   append_Real validateKey ''c'' [5, 6] False poolB =
     (None, poolB\<lparr>poolReal := [''a'' \<mapsto> [1], ''c'' \<mapsto> [5, 6]]\<rparr>) \<and>
   repeated_add poolReal poolReal_update others_Real (\<lambda>v. False) ''c'' [5, 6] poolB =
     (None, poolB\<lparr>poolReal := [''a'' \<mapsto> [1], ''c'' \<mapsto> [5, 6]]\<rparr>) \<and>
   append_String validateKey ''a'' [''y''] False poolB = (Some (TypeConflict ''a''), poolB) \<and>
   repeated_add poolString poolString_update others_String (\<lambda>v. False) ''a'' [''y''] poolB =
     (Some (TypeConflict ''a''), poolB) \<and>
   append_Real validateKey ''c'' [] False poolB =
     (None, poolB\<lparr>poolReal := [''a'' \<mapsto> [1], ''c'' \<mapsto> []]\<rparr>)"
proof -
  note t = append_unsupported_or_repeated_add[where p=poolB]
  have g1: "append_Array2DReal ''c'' [[[1]]] poolB = (Some Unsupported, poolB)"
    by (rule t[where name="''c''" and arrays="[[[1]]]", THEN conjunct2, THEN conjunct1])
  have h2: "''c'' \<notin> dom (poolReal poolB)" by (simp add: poolB_def emptyPool_def)
  have e2: "append_Real validateKey ''c'' [5, 6] False poolB =
        repeated_add poolReal poolReal_update others_Real (\<lambda>v. False) ''c'' [5, 6] poolB"
    by (rule t[where name="''c''" and rs="[5, 6]" and ?nf1.0="\<lambda>v. False",
          THEN conjunct2, THEN conjunct2, THEN conjunct1, THEN mp]) (simp add: h2)
  have v2: "validateKey poolB ''c'' = None"
    by (simp add: validateKey_def descriptorNames_poolB namespaceConflict_def namespacePrefix_def)
  have g2: "append_Real validateKey ''c'' [5, 6] False poolB =
        (None, poolB\<lparr>poolReal := [''a'' \<mapsto> [1], ''c'' \<mapsto> [5, 6]]\<rparr>)"
    using v2 by (simp add: append_Real_def specialize_append_def poolB_def emptyPool_def)
  have h3: "''a'' \<notin> dom (poolString poolB)" by (simp add: poolB_def emptyPool_def)
  have e3: "append_String validateKey ''a'' [''y''] False poolB =
        repeated_add poolString poolString_update others_String (\<lambda>v. False) ''a'' [''y''] poolB"
    by (rule t[where name="''a''" and ss="[''y'']" and ?nf3.0="\<lambda>v. False",
          THEN conjunct2, THEN conjunct2, THEN conjunct2, THEN conjunct2,
          THEN conjunct2, THEN conjunct2, THEN conjunct1, THEN mp])
       (simp add: h3)
  have v3: "validateKey poolB ''a'' = Some (TypeConflict ''a'')"
    by (simp add: validateKey_def descriptorNames_poolB)
  have g3: "append_String validateKey ''a'' [''y''] False poolB = (Some (TypeConflict ''a''), poolB)"
    using v3 by (simp add: append_String_def specialize_append_def poolB_def emptyPool_def)
  have h4: "poolReal poolB ''c'' = None" by (simp add: poolB_def emptyPool_def)
  have "append_Real validateKey ''c'' [] False poolB =
        (case validateKey poolB ''c'' of
           Some e \<Rightarrow> (Some e, poolB)
         | None \<Rightarrow> (None, poolB\<lparr>poolReal := (poolReal poolB)(''c'' \<mapsto> [])\<rparr>))"
    by (rule t[where name="''c''" and al=False,
          THEN conjunct2, THEN conjunct2, THEN conjunct2, THEN conjunct1, THEN mp, OF h4])
  moreover have "(poolReal poolB)(''c'' \<mapsto> []) = [''a'' \<mapsto> [1], ''c'' \<mapsto> []]"
    by (simp add: poolB_def emptyPool_def)
  ultimately have g4: "append_Real validateKey ''c'' [] False poolB =
     (None, poolB\<lparr>poolReal := [''a'' \<mapsto> [1], ''c'' \<mapsto> []]\<rparr>)"
    by (simp only: v2 option.case)
  show ?thesis using g1 g2 g3 g4 e2[symmetric] e3[symmetric] by (simp only: simp_thms)
qed

text \<open>
  Claim C6 as stated fails for an empty sequence of values. Under an absent name
  \<open>append\<close> creates the name with an empty sequence, where adding no value leaves the
  store without the name. Under a present name, \<open>c\<close> holding the one real 7, \<open>append\<close>
  subscripts out of range, where adding no value does nothing.
\<close>

theorem append_empty_creates_entry:
  "append_Real validateKey ''a'' [] False (emptyPool :: real Pool) =
     (None, emptyPool\<lparr>poolReal := [''a'' \<mapsto> []]\<rparr>) \<and>
   repeated_add poolReal poolReal_update others_Real (\<lambda>v. False) ''a'' [] (emptyPool :: real Pool) =
     (None, emptyPool) \<and>
   specialize_contains
     (poolReal (snd (append_Real validateKey ''a'' [] False (emptyPool :: real Pool)))) ''a'' \<and>
   \<not> specialize_contains
       (poolReal (snd (repeated_add poolReal poolReal_update others_Real (\<lambda>v. False) ''a'' []
          (emptyPool :: real Pool)))) ''a'' \<and>
   append_Real validateKey ''c'' [] False (emptyPool\<lparr>poolReal := [''c'' \<mapsto> [7]]\<rparr> :: real Pool) =
     (Some IndexOutOfRange, emptyPool\<lparr>poolReal := [''c'' \<mapsto> [7]]\<rparr>) \<and>
   repeated_add poolReal poolReal_update others_Real (\<lambda>v. False) ''c'' []
       (emptyPool\<lparr>poolReal := [''c'' \<mapsto> [7]]\<rparr> :: real Pool) =
     (None, emptyPool\<lparr>poolReal := [''c'' \<mapsto> [7]]\<rparr>)"
  by (simp add: append_Real_def specialize_append_def validateKey_def descriptorNames_def
      namespaceConflict_def emptyPool_def specialize_contains_def append_found_def resize_def
      vec_at_def andThen_def)

section \<open>The claims about the stage\<close>

text \<open>
  Claim C4. The claim asks that the first call of \<open>process\<close> after completion run the
  batch transform once over the whole buffer and push its result as the one output item.
  The source keeps the first half of the claim: before completion \<open>process\<close> returns
  PASS and pushes nothing. After completion it never pushes the result of the batch
  transform: whatever the framework answers at the two calls of \<open>input\<close> and whatever
  vector is bound to the output port of the inner algorithm, a call of \<open>process\<close> that
  returns has pushed nothing, or it returned OK and pushed the empty local vector.
\<close>

theorem process_pushes_unbound_local:
  fixes st :: "('r::{zero,minus,times}) Stage"
  shows
  "(\<not> shouldStop st \<longrightarrow> process w spec input port st = Some (Inr PASS, [])) \<and>
   (\<forall>res items. process w spec input port st = Some (res, items) \<longrightarrow>
      items = [] \<or> (res = Inr OK \<and> items = [[]]))"
  by (auto simp: process_def Let_def split: sum.splits option.splits)

text \<open>
  The theorem at \<open>stageA\<close>, which has buffered the frames of the scenario, with a
  framework that lets both calls of \<open>input\<close> return and an empty vector bound to the
  output port: PASS before completion; after it, the batch transform of the buffer is
  \<open>[[0, 0], [4, 4]]\<close>, and \<open>process\<close> returns OK with the empty vector as the one item.
\<close>

theorem process_pushes_unbound_local_witness:
  "process plain_window magnitude2 (\<lambda>name. None) (Inr []) (stageA\<lparr>shouldStop := False\<rparr>) =
     Some (Inr PASS, []) \<and>
   value_vector_vector_Real (pool stageA) mel_bands = Inr scenario_frames \<and>
   map_option (map_sum id fst) (compute plain_window magnitude2 2 2 scenario_frames []) =
     Some (Inr [[0, 0], [4, 4]]) \<and>
   process plain_window magnitude2 (\<lambda>name. None) (Inr []) stageA = Some (Inr OK, [[]])"
proof -
  note t = process_pushes_unbound_local[where w=plain_window and spec=magnitude2
      and input="\<lambda>name. None" and port="Inr []"]
  have g1: "process plain_window magnitude2 (\<lambda>name. None) (Inr []) (stageA\<lparr>shouldStop := False\<rparr>) =
      Some (Inr PASS, [])"
    by (rule t[THEN conjunct1, THEN mp]) simp
  have g2: "value_vector_vector_Real (pool stageA) mel_bands = Inr scenario_frames"
    by (simp add: stageA_def value_vector_vector_Real_def specialize_value_def)
  have g3: "map_option (map_sum id fst) (compute plain_window magnitude2 2 2 scenario_frames []) =
     Some (Inr [[0, 0], [4, 4]])"
    by (simp add: scenario_compute)
  have "\<exists>items. process plain_window magnitude2 (\<lambda>name. None) (Inr []) stageA =
          Some (Inr OK, items) \<and> items \<noteq> []"
    using scenario_compute
    by (simp add: process_def stageA_def value_vector_vector_Real_def specialize_value_def)
  then obtain items where i:
    "process plain_window magnitude2 (\<lambda>name. None) (Inr []) stageA = Some (Inr OK, items)"
    "items \<noteq> []" by blast
  from t[where st=stageA, THEN conjunct2, THEN spec, THEN spec, THEN mp, OF i(1)] i(2)
  have "items = [[]]" by blast
  then have g4: "process plain_window magnitude2 (\<lambda>name. None) (Inr []) stageA =
      Some (Inr OK, [[]])" using i(1) by simp
  show ?thesis using g1 g2 g3 g4 by (simp only: simp_thms)
qed

text \<open>
  Claim C7. \<open>reset\<close> empties the store and clears the stop flag, keeping the
  configuration. A push/completion cycle after \<open>reset\<close> gives the same result from any
  two stages of the same configuration, whatever they had buffered before; its buffer
  holds the frames pushed after the reset, in order, and nothing else.
\<close>

theorem reset_forgets_buffer:
  fixes st st' :: "('r::{zero,minus,times}) Stage"
  shows
  "pool (reset st) = emptyPool \<and> \<not> shouldStop (reset st) \<and>
   frameSize (reset st) = frameSize st \<and> hopSize (reset st) = hopSize st \<and>
   (frameSize st = frameSize st' \<and> hopSize st = hopSize st' \<longrightarrow>
      cycle w spec input port frames (reset st) = cycle w spec input port frames (reset st')) \<and>
   (frames \<noteq> [] \<longrightarrow>
      push_all frames (reset st) =
        (None, (reset st)\<lparr>pool := emptyPool\<lparr>poolVectorReal := [mel_bands \<mapsto> frames]\<rparr>\<rparr>))"
proof (intro conjI impI)
  show "pool (reset st) = emptyPool" by (simp add: reset_def clear_def)
  show "\<not> shouldStop (reset st)" by (simp add: reset_def)
  show "frameSize (reset st) = frameSize st" by (simp add: reset_def)
  show "hopSize (reset st) = hopSize st" by (simp add: reset_def)
next
  assume "frameSize st = frameSize st' \<and> hopSize st = hopSize st'"
  then have "reset st = reset st'" by (simp add: reset_is_newStage)
  then show "cycle w spec input port frames (reset st) = cycle w spec input port frames (reset st')"
    by simp
next
  assume "frames \<noteq> []"
  then obtain f fs where "frames = f # fs" by (cases frames) auto
  moreover have "pool (reset st) = emptyPool" by (simp add: reset_def clear_def)
  ultimately show "push_all frames (reset st) =
        (None, (reset st)\<lparr>pool := emptyPool\<lparr>poolVectorReal := [mel_bands \<mapsto> frames]\<rparr>\<rparr>)"
    using push_all_on_empty by blast
qed

text \<open>
  The theorem at \<open>stageB\<close>, which has buffered other frames: after \<open>reset\<close> a cycle
  over the frames of the scenario gives what it gives on a new stage, and the buffer that
  \<open>process\<close> reads holds the frames of the scenario and none of those that \<open>stageB\<close>
  held before.
\<close>

theorem reset_forgets_buffer_witness:
  "cycle plain_window magnitude2 (\<lambda>name. None) (Inr []) scenario_frames (reset stageB) =
     cycle plain_window magnitude2 (\<lambda>name. None) (Inr []) scenario_frames (reset (newStage 2 2)) \<and>
   value_vector_vector_Real (pool stageB) mel_bands = Inr [[9, 9, 9], [8, 8, 8]] \<and>
   contains_vector_Real (pool stageB) ''lowlevel.bpm'' \<and>
   fst (push_all scenario_frames (reset stageB)) = None \<and>
   value_vector_vector_Real (pool (snd (push_all scenario_frames (reset stageB)))) mel_bands =
     Inr scenario_frames \<and>
   \<not> contains_vector_Real (pool (snd (push_all scenario_frames (reset stageB)))) ''lowlevel.bpm'' \<and>
   signalCompletion (snd (push_all scenario_frames (reset stageB))) = stageA"
proof -
  note t = reset_forgets_buffer[where st=stageB and w=plain_window and spec=magnitude2
      and input="\<lambda>name. None" and port="Inr []" and frames=scenario_frames]
  have cfg: "frameSize stageB = frameSize (newStage 2 2 :: real Stage) \<and>
             hopSize stageB = hopSize (newStage 2 2 :: real Stage)"
    by (simp add: stageB_def newStage_def)
  have g1: "cycle plain_window magnitude2 (\<lambda>name. None) (Inr []) scenario_frames (reset stageB) =
     cycle plain_window magnitude2 (\<lambda>name. None) (Inr []) scenario_frames (reset (newStage 2 2))"
    by (rule t[where st'="newStage 2 2", THEN conjunct2, THEN conjunct2, THEN conjunct2,
          THEN conjunct2, THEN conjunct1, THEN mp, OF cfg])
  have ne: "scenario_frames \<noteq> []" by (simp add: scenario_frames_def)
  have pa: "push_all scenario_frames (reset stageB) =
        (None, (reset stageB)\<lparr>pool := emptyPool\<lparr>poolVectorReal := [mel_bands \<mapsto> scenario_frames]\<rparr>\<rparr>)"
    by (rule t[THEN conjunct2, THEN conjunct2, THEN conjunct2, THEN conjunct2, THEN conjunct2,
          THEN mp, OF ne])
  have g2: "value_vector_vector_Real (pool stageB) mel_bands = Inr [[9, 9, 9], [8, 8, 8]]"
    by (simp add: stageB_def value_vector_vector_Real_def specialize_value_def)
  have g3: "contains_vector_Real (pool stageB) ''lowlevel.bpm''"
    by (simp add: stageB_def contains_vector_Real_def)
  have g4: "fst (push_all scenario_frames (reset stageB)) = None" by (simp only: pa fst_conv)
  have g5: "value_vector_vector_Real (pool (snd (push_all scenario_frames (reset stageB)))) mel_bands =
     Inr scenario_frames"
    by (simp add: pa value_vector_vector_Real_def specialize_value_def)
  have g6: "\<not> contains_vector_Real (pool (snd (push_all scenario_frames (reset stageB)))) ''lowlevel.bpm''"
    by (simp add: pa contains_vector_Real_def emptyPool_def)
  have g7: "signalCompletion (snd (push_all scenario_frames (reset stageB))) = stageA"
    by (simp only: pa snd_conv)
       (simp add: signalCompletion_def reset_def stageA_def stageB_def clear_def)
  show ?thesis using g1 g2 g3 g4 g5 g6 g7 by (simp only: simp_thms)
qed

end
